theory Spec2Isabelle
  imports Main "HOL-Library.Sublist" "HOL-Library.AList" "HOL-Library.Log_Nat" "HOL-Library.Monad_Syntax"
begin

section \<open>JavaScript strings\<close>

text \<open>
  A JavaScript string is a sequence of UTF-16 code units. The embedding writes it as a
  \<^typ>\<open>string\<close>, one \<^typ>\<open>char\<close> per code unit, and so covers the logs whose
  code units are below 256. \<open>length\<close> is the source's \<^verbatim>\<open>.length\<close>.
\<close>

definition isDigit :: "char \<Rightarrow> bool" where
  \<comment> \<open>the class \<^verbatim>\<open>\d\<close>\<close>
  "isDigit c = (let n = (of_char c :: nat) in 48 \<le> n \<and> n \<le> 57)"

definition isWhiteSpace :: "char \<Rightarrow> bool" where
  \<comment> \<open>the class \<^verbatim>\<open>\s\<close>, also what \<^verbatim>\<open>trim\<close> removes: TAB, LF, VT, FF, CR, SP, NBSP\<close>
  "isWhiteSpace c = (let n = (of_char c :: nat) in (9 \<le> n \<and> n \<le> 13) \<or> n = 32 \<or> n = 160)"

definition isUpperOrUnderscore :: "char \<Rightarrow> bool" where
  \<comment> \<open>the class \<^verbatim>\<open>[A-Z_]\<close>\<close>
  "isUpperOrUnderscore c = (let n = (of_char c :: nat) in (65 \<le> n \<and> n \<le> 90) \<or> n = 95)"

definition isSafeChar :: "char \<Rightarrow> bool" where
  \<comment> \<open>the class \<^verbatim>\<open>[a-zA-Z0-9_\.]\<close>\<close>
  "isSafeChar c = (let n = (of_char c :: nat) in
     (97 \<le> n \<and> n \<le> 122) \<or> (65 \<le> n \<and> n \<le> 90) \<or> (48 \<le> n \<and> n \<le> 57) \<or> n = 95 \<or> n = 46)"

definition toUpperAscii :: "char \<Rightarrow> char" where
  \<comment> \<open>the canonical form the \<^verbatim>\<open>i\<close> flag compares by, on code units below 256 against ASCII letters\<close>
  "toUpperAscii c = (let n = (of_char c :: nat) in if 97 \<le> n \<and> n \<le> 122 then char_of (n - 32) else c)"

definition newline :: char where
  "newline = CHR 0x0A"

definition backslash :: char where
  "backslash = CHR 0x5C"

definition trim :: "string \<Rightarrow> string" where
  "trim s = rev (dropWhile isWhiteSpace (rev (dropWhile isWhiteSpace s)))"

definition trimStart :: "string \<Rightarrow> string" where
  "trimStart s = dropWhile isWhiteSpace s"

text \<open>\<^verbatim>\<open>s.split(sep)\<close> with a separator of one code unit: never the empty array.\<close>

primrec jsSplit :: "char \<Rightarrow> string \<Rightarrow> string list" where
  "jsSplit sep [] = [[]]"
| "jsSplit sep (c # cs) =
     (if c = sep then [] # jsSplit sep cs
      else (case jsSplit sep cs of [] \<Rightarrow> [[c]] | x # xs \<Rightarrow> (c # x) # xs))"

text \<open>\<^verbatim>\<open>xs.join(sep)\<close>.\<close>

fun jsJoin :: "string \<Rightarrow> string list \<Rightarrow> string" where
  "jsJoin sep [] = []"
| "jsJoin sep [x] = x"
| "jsJoin sep (x # y # ys) = x @ sep @ jsJoin sep (y # ys)"

text \<open>\<^verbatim>\<open>xs.slice(n)\<close> is \<^term>\<open>drop n xs\<close>; \<^verbatim>\<open>hay.includes(needle)\<close>:\<close>

primrec jsIncludes :: "string \<Rightarrow> string \<Rightarrow> bool" where
  "jsIncludes [] needle = (needle = [])"
| "jsIncludes (c # cs) needle = (prefix needle (c # cs) \<or> jsIncludes cs needle)"

text \<open>
  An unanchored regular expression tries each start position from the left and takes the
  first at which the pattern matches; \<open>m\<close> is the pattern anchored at the start of its
  argument.
\<close>

primrec search :: "(string \<Rightarrow> 'a option) \<Rightarrow> string \<Rightarrow> 'a option" where
  "search m [] = m []"
| "search m (c # cs) = (case m (c # cs) of Some r \<Rightarrow> Some r | None \<Rightarrow> search m cs)"

text \<open>Stripping a literal prefix, with the rest when it is there.\<close>

definition stripPrefix :: "string \<Rightarrow> string \<Rightarrow> string option" where
  "stripPrefix p s = (if prefix p s then Some (drop (length p) s) else None)"

text \<open>\<^verbatim>\<open>(\d+)\<close> is greedy: the longest run of digits, at least one, and the rest.\<close>

definition digits1 :: "string \<Rightarrow> (string \<times> string) option" where
  "digits1 s = (let d = takeWhile isDigit s in
     if d = [] then None else Some (d, dropWhile isDigit s))"

section \<open>JavaScript numbers\<close>

text \<open>
  The numbers the analyzer reads come from \<^verbatim>\<open>parseInt\<close> on a run of decimal digits.
  They are modelled as naturals, which is what a double holds exactly below \<open>2^53\<close>; the
  model is the source's arithmetic on logs whose digit runs stay below that bound.
\<close>

definition digitVal :: "char \<Rightarrow> nat" where
  "digitVal c = of_char c - 48"

definition parseDec :: "string \<Rightarrow> nat" where
  \<comment> \<open>\<^verbatim>\<open>parseInt\<close> on the capture of \<^verbatim>\<open>(\d+)\<close>\<close>
  "parseDec s = foldl (\<lambda>n c. 10 * n + digitVal c) 0 s"

definition digitChar :: "nat \<Rightarrow> char" where
  "digitChar n = ''0123456789'' ! (n mod 10)"

fun showNat :: "nat \<Rightarrow> string" where
  \<comment> \<open>the decimal numeral a template literal prints for an integer below \<open>10^21\<close>\<close>
  "showNat n = (if n < 10 then [digitChar n] else showNat (n div 10) @ [digitChar n])"

declare showNat.simps [simp del]

text \<open>
  A quotient of two such numbers is a double: the nearest number with a mantissa of 53
  bits, a tie going to the even mantissa. A positive double is kept here as a fraction
  \<open>(n, d)\<close> of naturals. \<open>roundHalfEven a b\<close> is the integer nearest to \<open>a / b\<close>;
  \<open>floorLog2 a b\<close> is the integer part of the binary logarithm of \<open>a / b\<close>.
\<close>

definition roundHalfEven :: "nat \<Rightarrow> nat \<Rightarrow> nat" where
  "roundHalfEven a b = (let q = a div b; r = a mod b in
     if 2 * r < b then q else if b < 2 * r then q + 1 else if even q then q else q + 1)"

definition floorLog2 :: "nat \<Rightarrow> nat \<Rightarrow> int" where
  "floorLog2 a b = (let k = int (floorlog 2 a) - int (floorlog 2 b) in
     if (if 0 \<le> k then b * 2 ^ nat k \<le> a else b \<le> a * 2 ^ nat (- k)) then k else k - 1)"

definition toDouble :: "nat \<times> nat \<Rightarrow> nat \<times> nat" where
  \<comment> \<open>the double nearest to \<open>a / b\<close>, for \<open>0 < b\<close>, within the range of normal doubles\<close>
  "toDouble q = (case q of (a, b) \<Rightarrow>
     if a = 0 then (0, 1)
     else let e = floorLog2 a b - 52 in
       if 0 \<le> e then (roundHalfEven a (b * 2 ^ nat e) * 2 ^ nat e, 1)
       else (roundHalfEven (a * 2 ^ nat (- e)) b, 2 ^ nat (- e)))"

definition mathRound :: "nat \<times> nat \<Rightarrow> nat" where
  \<comment> \<open>\<^verbatim>\<open>Math.round\<close>: the nearest integer, a tie going up\<close>
  "mathRound q = (case q of (a, b) \<Rightarrow> (2 * a + b) div (2 * b))"

definition roundPercent :: "nat \<Rightarrow> nat \<Rightarrow> nat" where
  \<comment> \<open>\<^verbatim>\<open>Math.round((used / total) * 100)\<close> for \<open>0 < total\<close>\<close>
  "roundPercent used tot = (case toDouble (used, tot) of (a, b) \<Rightarrow> mathRound (toDouble (a * 100, b)))"

text \<open>
  With \<open>total = 0\<close> the quotient is \<^verbatim>\<open>NaN\<close> or \<^verbatim>\<open>Infinity\<close>, and so is what
  \<^verbatim>\<open>Math.round\<close> returns.
\<close>

datatype jsnum = Num nat | Infinity | NaN

definition jsPercent :: "nat \<Rightarrow> nat \<Rightarrow> jsnum" where
  "jsPercent used tot =
     (if tot = 0 then (if used = 0 then NaN else Infinity) else Num (roundPercent used tot))"

definition showNum :: "jsnum \<Rightarrow> string" where
  "showNum x = (case x of Num n \<Rightarrow> showNat n | Infinity \<Rightarrow> ''Infinity'' | NaN \<Rightarrow> ''NaN'')"

text \<open>
  \<^verbatim>\<open>used / total > 0.5\<close>: a quotient by zero of a positive number is \<^verbatim>\<open>Infinity\<close>,
  of zero is \<^verbatim>\<open>NaN\<close>, which compares false. Below \<open>2^53\<close> the rounding of the
  quotient never crosses one half, so the comparison is the exact one.
\<close>

definition ratioAboveHalf :: "nat \<Rightarrow> nat \<Rightarrow> bool" where
  "ratioAboveHalf used tot = (if tot = 0 then 0 < used else tot < 2 * used)"

text \<open>
  \<^verbatim>\<open>parseInt(s)\<close> on any string, without a radix: leading white space, a sign, a
  \<^verbatim>\<open>0x\<close> prefix for base sixteen, then the longest run of digits. \<open>None\<close> is
  \<^verbatim>\<open>NaN\<close>.
\<close>

definition hexVal :: "char \<Rightarrow> nat option" where
  "hexVal c = (let n = (of_char c :: nat) in
     if 48 \<le> n \<and> n \<le> 57 then Some (n - 48)
     else if 97 \<le> n \<and> n \<le> 102 then Some (n - 87)
     else if 65 \<le> n \<and> n \<le> 70 then Some (n - 55)
     else None)"

definition parseRadix :: "nat \<Rightarrow> string \<Rightarrow> nat option" where
  "parseRadix r s = (let ds = takeWhile (\<lambda>c. case hexVal c of None \<Rightarrow> False | Some v \<Rightarrow> v < r) s in
     if ds = [] then None else Some (foldl (\<lambda>n c. r * n + the (hexVal c)) 0 ds))"

definition parseInt :: "string \<Rightarrow> int option" where
  "parseInt s = (let s1 = trimStart s;
       neg = prefix ''-'' s1;
       s2 = (if prefix ''-'' s1 \<or> prefix ''+'' s1 then drop 1 s1 else s1);
       hex = (prefix ''0x'' s2 \<or> prefix ''0X'' s2);
       r = (if hex then parseRadix 16 (drop 2 s2) else parseRadix 10 s2)
     in map_option (\<lambda>n. if neg then - int n else int n) r)"

text \<open>
  The time stamps are parsed by \<^verbatim>\<open>parseFloat\<close> and subtracted as doubles. Their
  arithmetic is kept uninterpreted: a time is the text it was parsed from, and a time
  offset is the pair of times it is the rounded difference of.
\<close>

datatype jsfloat = Zero | ParseFloat string

datatype jsms = Ms nat | RoundMs jsfloat jsfloat
  \<comment> \<open>\<open>RoundMs a b\<close> is \<^verbatim>\<open>Math.round((a - b) * 1000)\<close>\<close>

section \<open>The patterns of the analyzer\<close>

text \<open>
  Each regular expression of \<^verbatim>\<open>logAnalyzerHandler.ts\<close> is written out as the matcher
  it denotes. Every quantifier in them is greedy and is followed by a code unit outside
  its own class, so the longest run is the only one backtracking can end with.
\<close>

definition timestampPrefix :: "string \<Rightarrow> string option" where
  \<comment> \<open>\<^verbatim>\<open>/^\d+:\d+:\d+/\<close>, with what follows the match\<close>
  "timestampPrefix s = do {
     (_, r1) \<leftarrow> digits1 s;
     r2 \<leftarrow> stripPrefix '':'' r1;
     (_, r3) \<leftarrow> digits1 r2;
     r4 \<leftarrow> stripPrefix '':'' r3;
     (_, r5) \<leftarrow> digits1 r4;
     Some r5
   }"

definition hasTimestamp :: "string \<Rightarrow> bool" where
  "hasTimestamp s = (timestampPrefix s \<noteq> None)"

definition isEventHeader :: "string \<Rightarrow> bool" where
  \<comment> \<open>\<^verbatim>\<open>/^\d+:\d+:\d+\|[A-Z_]+\|/\<close>\<close>
  "isEventHeader s = (do {
     r1 \<leftarrow> timestampPrefix s;
     r2 \<leftarrow> stripPrefix ''|'' r1;
     r3 \<leftarrow> (if takeWhile isUpperOrUnderscore r2 = [] then None
           else Some (dropWhile isUpperOrUnderscore r2));
     stripPrefix ''|'' r3
   } \<noteq> None)"

definition matchBracketNumber :: "string \<Rightarrow> string option" where
  \<comment> \<open>\<^verbatim>\<open>/\[(\d+)\]/\<close>, the capture\<close>
  "matchBracketNumber = search (\<lambda>s. do {
     r1 \<leftarrow> stripPrefix ''['' s;
     (d, r2) \<leftarrow> digits1 r1;
     _ \<leftarrow> stripPrefix '']'' r2;
     Some d
   })"

definition matchKeyNumber :: "string \<Rightarrow> string \<Rightarrow> string option" where
  \<comment> \<open>\<^verbatim>\<open>/Bytes:(\d+)/\<close> and \<^verbatim>\<open>/Duration=(\d+)/\<close>, the capture\<close>
  "matchKeyNumber key = search (\<lambda>s. do {
     r1 \<leftarrow> stripPrefix key s;
     (d, _) \<leftarrow> digits1 r1;
     Some d
   })"

definition matchLimit :: "string \<Rightarrow> (string \<times> string \<times> string) option" where
  \<comment> \<open>\<^verbatim>\<open>/([^:]+):\s*(\d+)\s*of\s*(\d+)/\<close>, the three captures\<close>
  "matchLimit = search (\<lambda>s. do {
     nm \<leftarrow> (if takeWhile (\<lambda>c. c \<noteq> CHR '':'') s = [] then None
           else Some (takeWhile (\<lambda>c. c \<noteq> CHR '':'') s));
     r1 \<leftarrow> stripPrefix '':'' (dropWhile (\<lambda>c. c \<noteq> CHR '':'') s);
     (u, r2) \<leftarrow> digits1 (dropWhile isWhiteSpace r1);
     r3 \<leftarrow> stripPrefix ''of'' (dropWhile isWhiteSpace r2);
     (t, _) \<leftarrow> digits1 (dropWhile isWhiteSpace r3);
     Some (nm, u, t)
   })"

definition matchPercent :: "string \<Rightarrow> string option" where
  \<comment> \<open>\<^verbatim>\<open>/(\d+)%/\<close>\<close>
  "matchPercent = search (\<lambda>s. do {
     (d, r1) \<leftarrow> digits1 s;
     _ \<leftarrow> stripPrefix ''%'' r1;
     Some d
   })"

definition matchRatio :: "string \<Rightarrow> (string \<times> string) option" where
  \<comment> \<open>\<^verbatim>\<open>/(\d+)\/(\d+)/\<close>\<close>
  "matchRatio = search (\<lambda>s. do {
     (a, r1) \<leftarrow> digits1 s;
     r2 \<leftarrow> stripPrefix ''/'' r1;
     (b, _) \<leftarrow> digits1 r2;
     Some (a, b)
   })"

definition matchUncovered :: "string \<Rightarrow> string option" where
  \<comment> \<open>\<^verbatim>\<open>/Lines not covered: ([^\|]+)/\<close>\<close>
  "matchUncovered = search (\<lambda>s. do {
     r1 \<leftarrow> stripPrefix ''Lines not covered: '' s;
     (if takeWhile (\<lambda>c. c \<noteq> CHR ''|'') r1 = [] then None
      else Some (takeWhile (\<lambda>c. c \<noteq> CHR ''|'') r1))
   })"

definition stripPrefixCI :: "string \<Rightarrow> string \<Rightarrow> string option" where
  \<comment> \<open>a literal under the \<^verbatim>\<open>i\<close> flag\<close>
  "stripPrefixCI p s =
     (if length p \<le> length s \<and> map toUpperAscii (take (length p) s) = map toUpperAscii p
      then Some (drop (length p) s) else None)"

definition spaces1 :: "string \<Rightarrow> string option" where
  \<comment> \<open>\<^verbatim>\<open>\s+\<close>\<close>
  "spaces1 s = (if takeWhile isWhiteSpace s = [] then None else Some (dropWhile isWhiteSpace s))"

definition matchLineColumn :: "string \<Rightarrow> (string \<times> string option) option" where
  \<comment> \<open>\<^verbatim>\<open>/line\s+(\d+)(?:,\s*column\s+(\d+))?/i\<close>: the second capture is \<open>None\<close>
      when the optional group did not take part\<close>
  "matchLineColumn = search (\<lambda>s. do {
     r1 \<leftarrow> stripPrefixCI ''line'' s;
     r2 \<leftarrow> spaces1 r1;
     (l, r3) \<leftarrow> digits1 r2;
     Some (l, do {
       r4 \<leftarrow> stripPrefix '','' r3;
       r5 \<leftarrow> stripPrefixCI ''column'' (dropWhile isWhiteSpace r4);
       r6 \<leftarrow> spaces1 r5;
       (c, _) \<leftarrow> digits1 r6;
       Some c
     })
   })"

fun replaceEscapedNewlines :: "string \<Rightarrow> string" where
  \<comment> \<open>\<^verbatim>\<open>.replace(/\\n/g, '\n')\<close>: every backslash followed by \<open>n\<close>, left to right\<close>
  "replaceEscapedNewlines (a # b # cs) =
     (if a = backslash \<and> b = CHR ''n'' then newline # replaceEscapedNewlines cs
      else a # replaceEscapedNewlines (b # cs))"
| "replaceEscapedNewlines cs = cs"

definition removeDebugPrefix :: "string \<Rightarrow> string" where
  \<comment> \<open>\<^verbatim>\<open>.replace(/^DEBUG\|/, '')\<close>\<close>
  "removeDebugPrefix s = (case stripPrefix ''DEBUG|'' s of Some r \<Rightarrow> r | None \<Rightarrow> s)"

section \<open>The analysis\<close>

record Summary =
  totalTimeMs :: jsms
  dbTimeMs :: nat
  heapSize :: nat
  numDmlStatements :: nat
  numSoqlQueries :: nat
  numDatabaseCalls :: nat

record DebugLine =
  lineNumber :: nat
  message :: string
  timestamp :: string

record TimelineEvent =
  event :: string
  timeMs :: jsms
  details :: "string option"

record ErrorRecord =
  errMessage :: string
  errLineNumber :: "nat option"
  errColumnNumber :: "nat option"
  stackTrace :: "string option"

record LimitUsage =
  limName :: string
  limUsed :: nat
  limTotal :: nat
  percentage :: nat

record GovernorLimit =
  govName :: string
  usage :: nat
  govTotal :: nat

record MethodCall =
  mcName :: string
  mcTotalTimeMs :: nat
  mcSelfTimeMs :: nat
  mcCalls :: nat
  mcParent :: "string option"
  mcChildren :: "string list option"

record CodeCoverage =
  coveragePercentage :: jsnum
  linesCovered :: nat
  linesTotal :: nat
  uncoveredLines :: "int list"

record LogAnalysis =
  summary :: Summary
  debugLines :: "DebugLine list"
  timeline :: "TimelineEvent list"
  errors :: "ErrorRecord list"
  limits :: "LimitUsage list"
  governorLimits :: "GovernorLimit list"
  methodCalls :: "MethodCall list"
  codeCoverage :: "CodeCoverage option"
  hasCoverageInfo :: bool
  totalExecutionTimeMs :: jsms

text \<open>
  The limit map is a JavaScript \<^verbatim>\<open>Map\<close>: \<^verbatim>\<open>set\<close> overwrites the value of a key
  that is there and keeps its place, and appends a new key; \<^verbatim>\<open>forEach\<close> visits
  the entries in that order. This is \<^const>\<open>AList.update\<close> on an association list.
\<close>

type_synonym LimitMap = "(string \<times> nat \<times> nat) list"

definition initializeAnalysis :: LogAnalysis where
  "initializeAnalysis = \<lparr>
     summary = \<lparr> totalTimeMs = Ms 0, dbTimeMs = 0, heapSize = 0,
                 numDmlStatements = 0, numSoqlQueries = 0, numDatabaseCalls = 0 \<rparr>,
     debugLines = [], timeline = [], errors = [], limits = [], governorLimits = [],
     methodCalls = [], codeCoverage = None, hasCoverageInfo = False,
     totalExecutionTimeMs = Ms 0 \<rparr>"

definition isPartOfPreviousDebugLine :: "int \<Rightarrow> string \<Rightarrow> bool" where
  "isPartOfPreviousDebugLine lastDebugLineIndex line =
     (0 \<le> lastDebugLineIndex \<and> \<not> hasTimestamp line)"

text \<open>
  The loop of \<^verbatim>\<open>processContinuedDebugLine\<close> runs down the timeline and rewrites the
  details of the last \<open>Debug Log\<close> event; here the timeline is given reversed.
\<close>

fun updateLastDebugEvent :: "string \<Rightarrow> TimelineEvent list \<Rightarrow> TimelineEvent list" where
  "updateLastDebugEvent d [] = []"
| "updateLastDebugEvent d (e # es) =
     (if event e = ''Debug Log'' then e\<lparr>details := Some d\<rparr> # es
      else e # updateLastDebugEvent d es)"

definition processContinuedDebugLine :: "LogAnalysis \<Rightarrow> string \<Rightarrow> LogAnalysis" where
  "processContinuedDebugLine analysis line =
     (if debugLines analysis \<noteq> [] then
        let lastDebug = last (debugLines analysis);
            cleanedLine = removeDebugPrefix line;
            lastDebug' = lastDebug\<lparr>message := message lastDebug @ [newline] @ cleanedLine\<rparr>;
            d = ''Line '' @ showNat (lineNumber lastDebug') @ '': ''
                  @ hd (jsSplit newline (message lastDebug')) @ ''...''
        in analysis\<lparr>
             debugLines := butlast (debugLines analysis) @ [lastDebug'],
             timeline := rev (updateLastDebugEvent d (rev (timeline analysis)))\<rparr>
      else analysis)"

definition pushEvent :: "TimelineEvent \<Rightarrow> LogAnalysis \<Rightarrow> LogAnalysis" where
  \<comment> \<open>\<^verbatim>\<open>analysis.timeline.push(e)\<close>\<close>
  "pushEvent e analysis = analysis\<lparr>timeline := timeline analysis @ [e]\<rparr>"

definition processExecutionStarted :: "LogAnalysis \<Rightarrow> LogAnalysis" where
  "processExecutionStarted analysis =
     pushEvent \<lparr>event = ''Execution Started'', timeMs = Ms 0, details = None\<rparr> analysis"

definition processExecutionFinished :: "LogAnalysis \<Rightarrow> jsfloat \<Rightarrow> jsfloat \<Rightarrow> LogAnalysis" where
  "processExecutionFinished analysis startTime endTime =
     (let t = RoundMs endTime startTime;
          a1 = analysis\<lparr>totalExecutionTimeMs := t\<rparr>;
          a2 = a1\<lparr>summary := (summary a1)\<lparr>totalTimeMs := totalExecutionTimeMs a1\<rparr>\<rparr>
      in pushEvent \<lparr>event = ''Execution Finished'', timeMs = totalExecutionTimeMs a2,
                    details = None\<rparr> a2)"

definition processSoqlQuery :: "LogAnalysis \<Rightarrow> string list \<Rightarrow> jsms \<Rightarrow> LogAnalysis" where
  "processSoqlQuery analysis parts relativeTimeMs =
     (let a1 = analysis\<lparr>summary := (summary analysis)
                 \<lparr>numSoqlQueries := numSoqlQueries (summary analysis) + 1\<rparr>\<rparr>;
          queryDetails = trim (jsJoin ''|'' (drop 2 parts))
      in pushEvent \<lparr>event = ''SOQL Query'', timeMs = relativeTimeMs,
                    details = Some queryDetails\<rparr> a1)"

definition processDmlOperation :: "LogAnalysis \<Rightarrow> string list \<Rightarrow> jsms \<Rightarrow> LogAnalysis" where
  "processDmlOperation analysis parts relativeTimeMs =
     (let a1 = analysis\<lparr>summary := (summary analysis)
                 \<lparr>numDmlStatements := numDmlStatements (summary analysis) + 1\<rparr>\<rparr>
      in pushEvent \<lparr>event = ''DML Operation'', timeMs = relativeTimeMs,
                    details = Some (trim (jsJoin ''|'' (drop 2 parts)))\<rparr> a1)"

text \<open>
  The one failure a line can raise: \<^verbatim>\<open>processUserDebug\<close> calls \<^verbatim>\<open>parts[2].match\<close>,
  and \<^verbatim>\<open>parts[2]\<close> is \<^verbatim>\<open>undefined\<close> on a line of two fields.
\<close>

datatype error = TypeError

text \<open>
  The \<^verbatim>\<open>while\<close> loop of \<^verbatim>\<open>processUserDebug\<close>, over the lines from
  \<open>nextLineIndex\<close> on.
\<close>

fun absorbLines :: "string list \<Rightarrow> string \<Rightarrow> nat \<Rightarrow> string \<times> nat" where
  "absorbLines [] msg nextLineIndex = (msg, nextLineIndex)"
| "absorbLines (nextLine # rest) msg nextLineIndex =
     (if hasTimestamp nextLine then (msg, nextLineIndex)
      else absorbLines rest (msg @ [newline] @ nextLine) (nextLineIndex + 1))"

definition processUserDebug ::
  "LogAnalysis \<Rightarrow> string list \<Rightarrow> nat \<Rightarrow> string list \<Rightarrow> jsms \<Rightarrow> string
     \<Rightarrow> error + (nat \<times> LogAnalysis)" where
  "processUserDebug analysis lines currentIndex parts relativeTimeMs ts =
     (if length parts \<le> 2 then Inl TypeError
      else
        let ln = (case matchBracketNumber (parts ! 2) of Some d \<Rightarrow> parseDec d | None \<Rightarrow> 0);
            msg0 = removeDebugPrefix (replaceEscapedNewlines (trim (jsJoin ''|'' (drop 3 parts))));
            (msg, nextLineIndex) =
               absorbLines (drop (currentIndex + 1) lines) msg0 (currentIndex + 1);
            newIndex = (if currentIndex + 1 < nextLineIndex then nextLineIndex - 1 else currentIndex);
            a1 = analysis\<lparr>debugLines := debugLines analysis
                   @ [\<lparr>lineNumber = ln, message = msg, timestamp = ts\<rparr>]\<rparr>
        in Inr (newIndex,
             pushEvent \<lparr>event = ''Debug Log'', timeMs = relativeTimeMs,
               details = Some (''Line '' @ showNat ln @ '': '' @ hd (jsSplit newline msg)
                           @ (if jsIncludes msg [newline] then ''...'' else []))\<rparr> a1))"

definition processHeapAllocation :: "LogAnalysis \<Rightarrow> string \<Rightarrow> LogAnalysis" where
  "processHeapAllocation analysis line =
     (case matchKeyNumber ''Bytes:'' line of
        Some d \<Rightarrow>
          if heapSize (summary analysis) < parseDec d
          then analysis\<lparr>summary := (summary analysis)\<lparr>heapSize := parseDec d\<rparr>\<rparr>
          else analysis
      | None \<Rightarrow> analysis)"

text \<open>The look-ahead loop of \<^verbatim>\<open>processException\<close>, with its own index and bound.\<close>

function stackTraceLoop :: "string list \<Rightarrow> nat \<Rightarrow> nat \<Rightarrow> string \<Rightarrow> string" where
  "stackTraceLoop lines currentIndex j st =
     (if j < length lines \<and> j < currentIndex + 30 then
        (let nextLine = lines ! j in
         if isEventHeader nextLine then st
         else stackTraceLoop lines currentIndex (j + 1)
                (if trim nextLine \<noteq> []
                 then (if st \<noteq> [] then st @ [newline] else st) @ trim nextLine
                 else st))
      else st)"
  by pat_completeness auto
termination
  by (relation "measure (\<lambda>(lines, currentIndex, j, st). length lines - j)") auto

declare stackTraceLoop.simps [simp del]

definition processException ::
  "LogAnalysis \<Rightarrow> string list \<Rightarrow> jsms \<Rightarrow> string list \<Rightarrow> nat \<Rightarrow> LogAnalysis" where
  "processException analysis parts relativeTimeMs lines currentIndex =
     (let errorMessage = trim (jsJoin ''|'' (drop 2 parts));
          lineColMatch = matchLineColumn errorMessage;
          ln = (case lineColMatch of Some (l, c) \<Rightarrow> Some (parseDec l) | None \<Rightarrow> None);
          cn = (case lineColMatch of Some (l, Some c) \<Rightarrow> Some (parseDec c) | _ \<Rightarrow> None);
          st = stackTraceLoop lines currentIndex (currentIndex + 1) [];
          errorObj = \<lparr>errMessage = errorMessage, errLineNumber = ln, errColumnNumber = cn,
                      stackTrace = (if st \<noteq> [] then Some st else None)\<rparr>;
          a1 = analysis\<lparr>errors := errors analysis @ [errorObj]\<rparr>
      in pushEvent \<lparr>event = ''Error'', timeMs = relativeTimeMs,
                    details = Some errorMessage\<rparr> a1)"

definition partOr :: "string list \<Rightarrow> nat \<Rightarrow> string \<Rightarrow> string" where
  \<comment> \<open>\<^verbatim>\<open>parts[k] || dflt\<close>: the default for a missing or empty field\<close>
  "partOr parts k dflt = (if k < length parts \<and> parts ! k \<noteq> [] then parts ! k else dflt)"

definition processMethodEntry :: "LogAnalysis \<Rightarrow> string list \<Rightarrow> jsms \<Rightarrow> LogAnalysis" where
  "processMethodEntry analysis parts relativeTimeMs =
     pushEvent \<lparr>event = ''Method Entry'', timeMs = relativeTimeMs,
                 details = Some (partOr parts 2 ''Unknown Method'')\<rparr> analysis"

definition processMethodExit :: "LogAnalysis \<Rightarrow> string list \<Rightarrow> jsms \<Rightarrow> LogAnalysis" where
  "processMethodExit analysis parts relativeTimeMs =
     pushEvent \<lparr>event = ''Method Exit'', timeMs = relativeTimeMs,
                 details = Some (partOr parts 2 ''Unknown Method'')\<rparr> analysis"

text \<open>The bodies of the two loops over the limit fields, and the loops as folds.\<close>

definition limitUsageStep :: "LimitMap \<Rightarrow> string \<Rightarrow> LimitMap" where
  "limitUsageStep limitMap part =
     (let limitPart = trim part in
      if limitPart = [] then limitMap
      else (case matchLimit limitPart of
              Some (nm, u, t) \<Rightarrow> AList.update (trim nm) (parseDec u, parseDec t) limitMap
            | None \<Rightarrow> limitMap))"

definition processLimitUsage :: "LogAnalysis \<Rightarrow> LimitMap \<Rightarrow> string list \<Rightarrow> LimitMap" where
  "processLimitUsage analysis limitMap parts = foldl limitUsageStep limitMap (drop 2 parts)"

definition highLimitUsageEvent :: "string \<Rightarrow> nat \<Rightarrow> nat \<Rightarrow> jsms \<Rightarrow> TimelineEvent" where
  "highLimitUsageEvent limitName used tot relativeTimeMs =
     \<lparr>event = ''High Limit Usage'', timeMs = relativeTimeMs,
      details = Some (limitName @ '': '' @ showNat used @ '' of '' @ showNat tot
                       @ '' ('' @ showNum (jsPercent used tot) @ ''%)'')\<rparr>"

definition cumulativeLimitsStep ::
  "jsms \<Rightarrow> LogAnalysis \<times> LimitMap \<Rightarrow> string \<Rightarrow> LogAnalysis \<times> LimitMap" where
  "cumulativeLimitsStep relativeTimeMs s part =
     (case s of (analysis, limitMap) \<Rightarrow>
      let limitPart = trim part in
      if limitPart = [] then s
      else (case matchLimit limitPart of
              Some (nm, u, t) \<Rightarrow>
                let limitName = trim nm; used = parseDec u; tot = parseDec t;
                    a1 = analysis\<lparr>governorLimits := governorLimits analysis
                           @ [\<lparr>govName = limitName, usage = used, govTotal = tot\<rparr>]\<rparr>;
                    a2 = (if 0 < used \<and> ratioAboveHalf used tot
                          then pushEvent (highLimitUsageEvent limitName used tot relativeTimeMs) a1
                          else a1)
                in (a2, AList.update limitName (used, tot) limitMap)
            | None \<Rightarrow> s))"

definition processCumulativeLimits ::
  "LogAnalysis \<Rightarrow> LimitMap \<Rightarrow> string list \<Rightarrow> jsms \<Rightarrow> LogAnalysis \<times> LimitMap" where
  "processCumulativeLimits analysis limitMap parts relativeTimeMs =
     foldl (cumulativeLimitsStep relativeTimeMs) (analysis, limitMap) (drop 3 parts)"

definition processProfilingData :: "LogAnalysis \<Rightarrow> string list \<Rightarrow> LogAnalysis" where
  "processProfilingData analysis parts = analysis"

text \<open>
  \<^verbatim>\<open>processCodeCoverage\<close>: three extractions in a fixed order, each creating the summary
  when there is none and otherwise writing its own fields.
\<close>

definition coveragePercentStep :: "string \<Rightarrow> LogAnalysis \<Rightarrow> LogAnalysis" where
  "coveragePercentStep coverageText analysis =
     (case matchPercent coverageText of
        Some d \<Rightarrow>
          (case codeCoverage analysis of
             None \<Rightarrow> analysis\<lparr>codeCoverage := Some
               \<lparr>coveragePercentage = Num (parseDec d), linesCovered = 0, linesTotal = 0,
                uncoveredLines = []\<rparr>\<rparr>
           | Some cc \<Rightarrow> analysis\<lparr>codeCoverage := Some (cc\<lparr>coveragePercentage := Num (parseDec d)\<rparr>)\<rparr>)
      | None \<Rightarrow> analysis)"

definition coverageRatioStep :: "string \<Rightarrow> LogAnalysis \<Rightarrow> LogAnalysis" where
  "coverageRatioStep coverageText analysis =
     (case matchRatio coverageText of
        Some (a, b) \<Rightarrow>
          (case codeCoverage analysis of
             None \<Rightarrow> analysis\<lparr>codeCoverage := Some
               \<lparr>coveragePercentage = jsPercent (parseDec a) (parseDec b),
                linesCovered = parseDec a, linesTotal = parseDec b, uncoveredLines = []\<rparr>\<rparr>
           | Some cc \<Rightarrow> analysis\<lparr>codeCoverage := Some
               (cc\<lparr>linesCovered := parseDec a, linesTotal := parseDec b\<rparr>)\<rparr>)
      | None \<Rightarrow> analysis)"

definition parseUncoveredLines :: "string \<Rightarrow> int list" where
  \<comment> \<open>\<^verbatim>\<open>uncoveredText.split(',').map(n => parseInt(n.trim())).filter(n => !isNaN(n))\<close>\<close>
  "parseUncoveredLines uncoveredText =
     List.map_filter (\<lambda>n. parseInt (trim n)) (jsSplit (CHR '','') uncoveredText)"

definition coverageUncoveredStep :: "string \<Rightarrow> LogAnalysis \<Rightarrow> LogAnalysis" where
  "coverageUncoveredStep coverageText analysis =
     (case matchUncovered coverageText of
        Some uncoveredText \<Rightarrow>
          (case codeCoverage analysis of
             None \<Rightarrow> analysis\<lparr>codeCoverage := Some
               \<lparr>coveragePercentage = Num 0, linesCovered = 0, linesTotal = 0,
                uncoveredLines = parseUncoveredLines uncoveredText\<rparr>\<rparr>
           | Some cc \<Rightarrow> analysis\<lparr>codeCoverage := Some
               (cc\<lparr>uncoveredLines := parseUncoveredLines uncoveredText\<rparr>)\<rparr>)
      | None \<Rightarrow> analysis)"

definition processCodeCoverage :: "LogAnalysis \<Rightarrow> string list \<Rightarrow> LogAnalysis" where
  "processCodeCoverage analysis parts =
     (let a0 = analysis\<lparr>hasCoverageInfo := True\<rparr>;
          coverageText = jsJoin ''|'' (drop 2 parts)
      in coverageUncoveredStep coverageText
           (coverageRatioStep coverageText (coveragePercentStep coverageText a0)))"

definition processSystemMode :: "LogAnalysis \<Rightarrow> string \<Rightarrow> jsms \<Rightarrow> LogAnalysis" where
  "processSystemMode analysis eventType relativeTimeMs =
     pushEvent \<lparr>event = (if jsIncludes eventType ''SYSTEM_MODE_ENTER''
                           then ''System Mode Enter'' else ''System Mode Exit''),
                 timeMs = relativeTimeMs, details = None\<rparr> analysis"

definition processConstructor ::
  "LogAnalysis \<Rightarrow> string \<Rightarrow> string list \<Rightarrow> jsms \<Rightarrow> LogAnalysis" where
  "processConstructor analysis eventType parts relativeTimeMs =
     pushEvent \<lparr>event = (if jsIncludes eventType ''CONSTRUCTOR_ENTRY''
                           then ''Constructor Entry'' else ''Constructor Exit''),
                 timeMs = relativeTimeMs,
                 details = Some (partOr parts 2 ''Unknown Class'')\<rparr> analysis"

definition processCustomMethod ::
  "LogAnalysis \<Rightarrow> string \<Rightarrow> string list \<Rightarrow> jsms \<Rightarrow> LogAnalysis" where
  "processCustomMethod analysis eventType parts relativeTimeMs =
     pushEvent \<lparr>event = (if jsIncludes eventType ''METHOD_ENTRY''
                           then ''Method Entry'' else ''Method Exit''),
                 timeMs = relativeTimeMs,
                 details = Some (partOr parts 2 ''Unknown Method'')\<rparr> analysis"

definition processEnd :: "string \<Rightarrow> LogAnalysis \<Rightarrow> string list \<Rightarrow> jsms \<Rightarrow> LogAnalysis" where
  \<comment> \<open>the common body of \<^verbatim>\<open>processSoqlEnd\<close> and \<^verbatim>\<open>processDmlEnd\<close>, which differ
      in the label of the event\<close>
  "processEnd label analysis parts relativeTimeMs =
     (case matchKeyNumber ''Duration='' (jsJoin ''|'' (drop 2 parts)) of
        Some d \<Rightarrow>
          pushEvent \<lparr>event = label, timeMs = relativeTimeMs,
                      details = Some (''Duration: '' @ showNat (parseDec d) @ ''ms'')\<rparr>
            (analysis\<lparr>summary := (summary analysis)
               \<lparr>dbTimeMs := dbTimeMs (summary analysis) + parseDec d\<rparr>\<rparr>)
      | None \<Rightarrow> analysis)"

definition processSoqlEnd :: "LogAnalysis \<Rightarrow> string list \<Rightarrow> jsms \<Rightarrow> LogAnalysis" where
  "processSoqlEnd = processEnd ''SOQL Query Completed''"

definition processDmlEnd :: "LogAnalysis \<Rightarrow> string list \<Rightarrow> jsms \<Rightarrow> LogAnalysis" where
  "processDmlEnd = processEnd ''DML Operation Completed''"

text \<open>
  \<^verbatim>\<open>finalizeAnalysis\<close>: one entry for each key of the map, in the order of the map, then
  \<^verbatim>\<open>sort\<close> by falling percentage. The sort of JavaScript is stable, as
  \<^const>\<open>sort_key\<close> is.
\<close>

definition toLimitUsage :: "string \<times> nat \<times> nat \<Rightarrow> LimitUsage" where
  "toLimitUsage e = (case e of (key, u, t) \<Rightarrow>
     \<lparr>limName = key, limUsed = u, limTotal = t,
      percentage = (if 0 < t then roundPercent u t else 0)\<rparr>)"

definition finalizeAnalysis :: "LogAnalysis \<Rightarrow> LimitMap \<Rightarrow> LogAnalysis" where
  "finalizeAnalysis analysis limitMap =
     (let a1 = analysis\<lparr>limits := sort_key (\<lambda>l. - int (percentage l))
                                  (limits analysis @ map toLimitUsage limitMap)\<rparr>
      in a1\<lparr>summary := (summary a1)\<lparr>numDatabaseCalls :=
               numSoqlQueries (summary a1) + numDmlStatements (summary a1)\<rparr>\<rparr>)"

section \<open>The loop of the analyzer\<close>

text \<open>
  The variables of \<^verbatim>\<open>analyzeApexLog\<close> that the loop changes. \<open>lastDebugLineIndex\<close> is
  \<open>-1\<close> when no debug capture is open.
\<close>

record LoopState =
  analysis :: LogAnalysis
  limitMap :: LimitMap
  lastDebugLineIndex :: int
  startTime :: jsfloat
  endTime :: jsfloat

text \<open>
  What the \<^verbatim>\<open>try\<close> block does on one line: it completes, with the value of the loop
  counter \<open>i\<close> and the variables, or it raises, with the variables as the raise left them.
\<close>

datatype outcome = Returned nat LoopState | Raised error LoopState

definition closeDebug :: "LoopState \<Rightarrow> LoopState" where
  \<comment> \<open>\<^verbatim>\<open>lastDebugLineIndex = -1\<close>\<close>
  "closeDebug st = st\<lparr>lastDebugLineIndex := - 1\<rparr>"

definition dispatch :: "string list \<Rightarrow> nat \<Rightarrow> string \<Rightarrow> string list \<Rightarrow> LoopState \<Rightarrow> outcome" where
  "dispatch lines i line parts st =
     (let ts = parts ! 0;
          eventType = parts ! 1;
          currentTime = ParseFloat ts;
          relativeTimeMs = RoundMs currentTime (startTime st);
          a = analysis st
      in
      if jsIncludes eventType ''EXECUTION_STARTED'' then
        Returned i (closeDebug (st\<lparr>startTime := currentTime,
                                   analysis := processExecutionStarted a\<rparr>))
      else if jsIncludes eventType ''EXECUTION_FINISHED'' then
        Returned i (closeDebug (st\<lparr>endTime := currentTime,
                                   analysis := processExecutionFinished a (startTime st) currentTime\<rparr>))
      else if jsIncludes eventType ''SOQL_EXECUTE_BEGIN'' then
        Returned i (closeDebug (st\<lparr>analysis := processSoqlQuery a parts relativeTimeMs\<rparr>))
      else if jsIncludes eventType ''DML_BEGIN'' then
        Returned i (closeDebug (st\<lparr>analysis := processDmlOperation a parts relativeTimeMs\<rparr>))
      else if jsIncludes eventType ''USER_DEBUG'' then
        (case processUserDebug a lines i parts relativeTimeMs ts of
           Inl e \<Rightarrow> Raised e (st\<lparr>lastDebugLineIndex := int i\<rparr>)
         | Inr (newIndex, a') \<Rightarrow>
             Returned newIndex (st\<lparr>lastDebugLineIndex := int i, analysis := a'\<rparr>))
      else if jsIncludes eventType ''HEAP_ALLOCATE'' then
        Returned i (closeDebug (st\<lparr>analysis := processHeapAllocation a line\<rparr>))
      else if jsIncludes eventType ''EXCEPTION_THROWN'' \<or> jsIncludes eventType ''FATAL_ERROR'' then
        Returned i (closeDebug (st\<lparr>analysis := processException a parts relativeTimeMs lines i\<rparr>))
      else if jsIncludes eventType ''SYSTEM_METHOD_ENTRY'' then
        Returned i (closeDebug (st\<lparr>analysis := processMethodEntry a parts relativeTimeMs\<rparr>))
      else if jsIncludes eventType ''SYSTEM_METHOD_EXIT'' then
        Returned i (closeDebug (st\<lparr>analysis := processMethodExit a parts relativeTimeMs\<rparr>))
      else if jsIncludes eventType ''LIMIT_USAGE_FOR_NS'' then
        Returned i (closeDebug (st\<lparr>limitMap := processLimitUsage a (limitMap st) parts\<rparr>))
      else if jsIncludes eventType ''CUMULATIVE_LIMIT_USAGE'' then
        (case processCumulativeLimits a (limitMap st) parts relativeTimeMs of
           (a', m') \<Rightarrow> Returned i (closeDebug (st\<lparr>analysis := a', limitMap := m'\<rparr>)))
      else if jsIncludes eventType ''CUMULATIVE_PROFILING'' then
        Returned i (closeDebug (st\<lparr>analysis := processProfilingData a parts\<rparr>))
      else if jsIncludes eventType ''CODE_COVERAGE'' then
        Returned i (closeDebug (st\<lparr>analysis := processCodeCoverage a parts\<rparr>))
      else if jsIncludes eventType ''SYSTEM_MODE_ENTER'' \<or> jsIncludes eventType ''SYSTEM_MODE_EXIT'' then
        Returned i (closeDebug (st\<lparr>analysis := processSystemMode a eventType relativeTimeMs\<rparr>))
      else if jsIncludes eventType ''CONSTRUCTOR_ENTRY'' \<or> jsIncludes eventType ''CONSTRUCTOR_EXIT'' then
        Returned i (closeDebug (st\<lparr>analysis := processConstructor a eventType parts relativeTimeMs\<rparr>))
      else if jsIncludes eventType ''METHOD_ENTRY'' \<or> jsIncludes eventType ''METHOD_EXIT'' then
        Returned i (closeDebug (st\<lparr>analysis := processCustomMethod a eventType parts relativeTimeMs\<rparr>))
      else if jsIncludes eventType ''SOQL_EXECUTE_END'' then
        Returned i (closeDebug (st\<lparr>analysis := processSoqlEnd a parts relativeTimeMs\<rparr>))
      else if jsIncludes eventType ''DML_END'' then
        Returned i (closeDebug (st\<lparr>analysis := processDmlEnd a parts relativeTimeMs\<rparr>))
      else Returned i st)"

definition tryBlock :: "string list \<Rightarrow> nat \<Rightarrow> LoopState \<Rightarrow> outcome" where
  "tryBlock lines i st =
     (let line = lines ! i in
      if isPartOfPreviousDebugLine (lastDebugLineIndex st) line then
        Returned i (st\<lparr>analysis := processContinuedDebugLine (analysis st) line\<rparr>)
      else
        let parts = jsSplit (CHR ''|'') line in
        if length parts < 2 then Returned i st
        else dispatch lines i line parts st)"

text \<open>
  The \<^verbatim>\<open>for\<close> loop. Its counter is assigned in the body, from what
  \<^verbatim>\<open>processUserDebug\<close> returns, so that the loop ends is a property to prove and not
  part of the definition: \<open>None\<close> is a loop that does not return. A raise in the
  \<^verbatim>\<open>try\<close> block is caught and the loop goes on with the next line.
\<close>

partial_function (option) analyzeLoop :: "string list \<Rightarrow> nat \<Rightarrow> LoopState \<Rightarrow> LoopState option" where
  "analyzeLoop lines i st =
     (if i < length lines then
        (if trim (lines ! i) = [] then analyzeLoop lines (i + 1) st
         else (case tryBlock lines i st of
                 Returned i' st' \<Rightarrow> analyzeLoop lines (i' + 1) st'
               | Raised e st' \<Rightarrow> analyzeLoop lines (i + 1) st'))
      else Some st)"

declare analyzeLoop.simps [code]

definition initialState :: LoopState where
  "initialState = \<lparr>analysis = initializeAnalysis, limitMap = [], lastDebugLineIndex = - 1,
                    startTime = Zero, endTime = Zero\<rparr>"

definition analyzeApexLog :: "string \<Rightarrow> LogAnalysis option" where
  "analyzeApexLog logText =
     map_option (\<lambda>st. finalizeAnalysis (analysis st) (limitMap st))
       (analyzeLoop (jsSplit newline logText) 0 initialState)"

section \<open>The section extractor\<close>

text \<open>
  \<^verbatim>\<open>filterLogsForMethod\<close> of \<^verbatim>\<open>extension.ts\<close>. Its arguments are typed as strings,
  the last one optional; the answer \<open>Invalid inputs for log filtering.\<close> is for arguments
  that are not strings, which the types of the model exclude. These are the variables the
  loop over the lines changes.
\<close>

record ExtractState =
  inSetupMethod :: bool
  inTestMethod :: bool
  setupMethodSections :: "string list"
  testMethodSections :: "string list"
  currentSection :: "string list"
  lastCodeUnitStarted :: string

definition sanitize :: "string \<Rightarrow> string" where
  \<comment> \<open>\<^verbatim>\<open>.replace(/[^a-zA-Z0-9_\.]/g, '')\<close>\<close>
  "sanitize s = filter isSafeChar s"

definition qualifiedName :: "string \<Rightarrow> string \<Rightarrow> string" where
  \<comment> \<open>the template literal of a class name, a dot and a method name\<close>
  "qualifiedName c m = c @ ''.'' @ m"

definition flushSection :: "ExtractState \<Rightarrow> ExtractState" where
  \<comment> \<open>the block \<open>Save current section before starting a new one\<close>\<close>
  "flushSection st =
     (if currentSection st \<noteq> [] then
        (if inSetupMethod st then
           st\<lparr>setupMethodSections := setupMethodSections st @ currentSection st\<rparr>
         else if inTestMethod st then
           st\<lparr>testMethodSections := testMethodSections st @ currentSection st\<rparr>
         else st)\<lparr>currentSection := []\<rparr>
      else st)"

definition openSetup :: "string \<Rightarrow> ExtractState \<Rightarrow> ExtractState" where
  "openSetup line st =
     (let s1 = flushSection st
      in s1\<lparr>inSetupMethod := True, inTestMethod := False,
             currentSection := currentSection s1 @ [line]\<rparr>)"

definition openTest :: "string \<Rightarrow> ExtractState \<Rightarrow> ExtractState" where
  "openTest line st =
     (let s1 = flushSection st
      in s1\<lparr>inTestMethod := True, inSetupMethod := False,
             currentSection := currentSection s1 @ [line]\<rparr>)"

definition finishedStep ::
  "string \<Rightarrow> string \<Rightarrow> string \<Rightarrow> string option \<Rightarrow> ExtractState \<Rightarrow> string \<Rightarrow> ExtractState" where
  \<comment> \<open>the body from the test for \<^verbatim>\<open>CODE_UNIT_FINISHED\<close> on\<close>
  "finishedStep safeClassName safeMethodName safeSetupMethodName setupMethodName st line =
     (if jsIncludes line ''CODE_UNIT_FINISHED'' \<and> inSetupMethod st
         \<and> (case setupMethodName of Some s \<Rightarrow> s \<noteq> [] | None \<Rightarrow> False)
         \<and> jsIncludes line (qualifiedName safeClassName safeSetupMethodName) then
        st\<lparr>setupMethodSections := setupMethodSections st @ (currentSection st @ [line]),
            currentSection := [], inSetupMethod := False\<rparr>
      else if jsIncludes line ''CODE_UNIT_FINISHED'' \<and> inTestMethod st
         \<and> jsIncludes line (qualifiedName safeClassName safeMethodName) then
        st\<lparr>testMethodSections := testMethodSections st @ (currentSection st @ [line]),
            currentSection := [], inTestMethod := False\<rparr>
      else if inSetupMethod st \<or> inTestMethod st then
        st\<lparr>currentSection := currentSection st @ [line]\<rparr>
      else st)"

definition filterStep ::
  "string \<Rightarrow> string \<Rightarrow> string \<Rightarrow> string option \<Rightarrow> ExtractState \<Rightarrow> string \<Rightarrow> ExtractState" where
  \<comment> \<open>the body of the loop, on one line\<close>
  "filterStep safeClassName safeMethodName safeSetupMethodName setupMethodName st line =
     (if jsIncludes line ''CODE_UNIT_STARTED'' then
        (let s0 = st\<lparr>lastCodeUnitStarted := line\<rparr> in
         if safeSetupMethodName \<noteq> []
            \<and> jsIncludes line (qualifiedName safeClassName safeSetupMethodName) then
           openSetup line s0
         else if jsIncludes line (qualifiedName safeClassName safeMethodName) then
           openTest line s0
         else finishedStep safeClassName safeMethodName safeSetupMethodName setupMethodName s0 line)
      else finishedStep safeClassName safeMethodName safeSetupMethodName setupMethodName st line)"

definition initialExtract :: ExtractState where
  "initialExtract = \<lparr>inSetupMethod = False, inTestMethod = False, setupMethodSections = [],
                      testMethodSections = [], currentSection = [], lastCodeUnitStarted = []\<rparr>"

definition remainingSections :: "ExtractState \<Rightarrow> ExtractState" where
  \<comment> \<open>the block \<open>Add any remaining sections\<close>\<close>
  "remainingSections st =
     (if currentSection st \<noteq> [] then
        (if inSetupMethod st then
           st\<lparr>setupMethodSections := setupMethodSections st @ currentSection st\<rparr>
         else if inTestMethod st then
           st\<lparr>testMethodSections := testMethodSections st @ currentSection st\<rparr>
         else st)
      else st)"

definition tooLarge :: string where
  "tooLarge = ''Log is too large to display. Please check the raw logs on Salesforce.''"

definition MAX_LOG_SIZE :: nat where
  "MAX_LOG_SIZE = 1024 * 1024"

definition MAX_LINES :: nat where
  "MAX_LINES = 50000"

definition assemble ::
  "string \<Rightarrow> string \<Rightarrow> string \<Rightarrow> string list \<Rightarrow> ExtractState \<Rightarrow> string list" where
  \<comment> \<open>the lines of the answer, from \<open>Combine sections with headers\<close> on\<close>
  "assemble safeClassName safeMethodName safeSetupMethodName logLines st =
     (let f1 = (if setupMethodSections st \<noteq> [] then
                  [''==== TEST SETUP METHOD ===='',
                   qualifiedName safeClassName
                     (if safeSetupMethodName \<noteq> [] then safeSetupMethodName
                      else ''Unknown Setup Method''),
                   []] @ setupMethodSections st @ [[]]
                else []);
          f2 = f1 @ (if testMethodSections st \<noteq> [] then
                  [''==== TEST METHOD ===='', qualifiedName safeClassName safeMethodName, []]
                    @ testMethodSections st
                else [])
      in if f2 = [] then
           (let relevantLines = filter (\<lambda>line.
                  jsIncludes line (qualifiedName safeClassName safeMethodName)
                  \<or> (safeSetupMethodName \<noteq> []
                      \<and> jsIncludes line (qualifiedName safeClassName safeSetupMethodName))) logLines
            in [''No specific method boundaries found for '' @ qualifiedName safeClassName safeMethodName,
                ''Showing any log entries containing references to this method:'',
                []]
               @ (if relevantLines \<noteq> [] then relevantLines
                  else [''No references to '' @ qualifiedName safeClassName safeMethodName
                          @ '' found in the logs.'']))
         else f2)"

definition safeSetupName :: "string option \<Rightarrow> string" where
  \<comment> \<open>\<^verbatim>\<open>setupMethodName ? setupMethodName.replace(...) : ''\<close>\<close>
  "safeSetupName setupMethodName =
     (case setupMethodName of Some s \<Rightarrow> (if s \<noteq> [] then sanitize s else []) | None \<Rightarrow> [])"

definition extractLoop :: "string \<Rightarrow> string \<Rightarrow> string option \<Rightarrow> string list \<Rightarrow> ExtractState" where
  \<comment> \<open>the variables after the loop has run over the given lines\<close>
  "extractLoop className methodName setupMethodName logLines =
     foldl (filterStep (sanitize className) (sanitize methodName) (safeSetupName setupMethodName)
              setupMethodName) initialExtract logLines"

definition filterLogsForMethod :: "string \<Rightarrow> string \<Rightarrow> string \<Rightarrow> string option \<Rightarrow> string" where
  "filterLogsForMethod debugLog className methodName setupMethodName =
     (if debugLog = [] \<or> debugLog = ''No logs found'' then ''No logs available for this method.''
      else if MAX_LOG_SIZE < length debugLog then tooLarge
      else
        let logLines = jsSplit newline debugLog
        in if MAX_LINES < length logLines then tooLarge
           else jsJoin [newline]
                  (assemble (sanitize className) (sanitize methodName)
                     (safeSetupName setupMethodName) logLines
                     (remainingSections
                        (extractLoop className methodName setupMethodName logLines))))"

section \<open>Vocabulary of the properties\<close>

text \<open>
  The event tags that lead \<^const>\<open>dispatch\<close> to \<^verbatim>\<open>processUserDebug\<close>: those with
  \<open>USER_DEBUG\<close> in them and none of the four substrings tested before it.
\<close>

definition isUserDebugTag :: "string \<Rightarrow> bool" where
  "isUserDebugTag eventType =
     (jsIncludes eventType ''USER_DEBUG''
      \<and> \<not> jsIncludes eventType ''EXECUTION_STARTED''
      \<and> \<not> jsIncludes eventType ''EXECUTION_FINISHED''
      \<and> \<not> jsIncludes eventType ''SOQL_EXECUTE_BEGIN''
      \<and> \<not> jsIncludes eventType ''DML_BEGIN'')"

text \<open>
  The substrings that \<^const>\<open>dispatch\<close> looks for in an event tag, in its order, and the
  lines the loop passes over: they begin with the time-stamp pattern and have fewer than
  two fields, or a tag with none of these substrings in it.
\<close>

definition recognizedTags :: "string list" where
  "recognizedTags =
     [''EXECUTION_STARTED'', ''EXECUTION_FINISHED'', ''SOQL_EXECUTE_BEGIN'', ''DML_BEGIN'',
      ''USER_DEBUG'', ''HEAP_ALLOCATE'', ''EXCEPTION_THROWN'', ''FATAL_ERROR'',
      ''SYSTEM_METHOD_ENTRY'', ''SYSTEM_METHOD_EXIT'', ''LIMIT_USAGE_FOR_NS'',
      ''CUMULATIVE_LIMIT_USAGE'', ''CUMULATIVE_PROFILING'', ''CODE_COVERAGE'',
      ''SYSTEM_MODE_ENTER'', ''SYSTEM_MODE_EXIT'', ''CONSTRUCTOR_ENTRY'', ''CONSTRUCTOR_EXIT'',
      ''METHOD_ENTRY'', ''METHOD_EXIT'', ''SOQL_EXECUTE_END'', ''DML_END'']"

definition isSkippedLine :: "string \<Rightarrow> bool" where
  "isSkippedLine line =
     (hasTimestamp line
      \<and> (length (jsSplit (CHR ''|'') line) < 2
          \<or> list_all (\<lambda>t. \<not> jsIncludes (jsSplit (CHR ''|'') line ! 1) t) recognizedTags))"

text \<open>
  A limit sample is what one field of a limit event yields when the limit pattern matches
  it: the name, trimmed, the used count and the total. \<open>lastWriteWins\<close> writes a
  sequence of samples into a limit map, one \<^verbatim>\<open>set\<close> after the other, and
  \<open>rawSample\<close> reads a sample back from the list of raw governor limits.
\<close>

definition limitSample :: "string \<Rightarrow> (string \<times> nat \<times> nat) option" where
  "limitSample part =
     (if trim part = [] then None
      else map_option (\<lambda>(nm, u, t). (trim nm, parseDec u, parseDec t)) (matchLimit (trim part)))"

definition lastWriteWins :: "LimitMap \<Rightarrow> (string \<times> nat \<times> nat) list \<Rightarrow> LimitMap" where
  "lastWriteWins m samples = foldl (\<lambda>m (n, u, t). AList.update n (u, t) m) m samples"

definition rawSample :: "GovernorLimit \<Rightarrow> string \<times> nat \<times> nat" where
  "rawSample g = (govName g, usage g, govTotal g)"

section \<open>Properties of the section extractor\<close>

subsection \<open>The answers given before any scanning\<close>

lemma jsSplit_not_Nil [simp]: "jsSplit sep s \<noteq> []"
  by (induction s) (auto split: list.splits)

lemma no_logs_found_small:
  "\<not> MAX_LOG_SIZE < length ''No logs found''"
  "\<not> MAX_LINES < length (jsSplit newline ''No logs found'')"
  by (simp_all add: MAX_LOG_SIZE_def MAX_LINES_def newline_def)

text \<open>
  Claim C10. When the raw log is the empty string, or is exactly \<open>No logs found\<close>, the
  extractor answers \<open>No logs available for this method.\<close>, whatever the class name, the
  method name and the setup method name are; no line of the log is looked at.
\<close>

theorem filterLogsForMethod_no_logs:
  "filterLogsForMethod [] className methodName setupMethodName
     = ''No logs available for this method.''
   \<and> filterLogsForMethod ''No logs found'' className methodName setupMethodName
     = ''No logs available for this method.''"
  by (simp add: filterLogsForMethod_def)

text \<open>
  Claim C3. When the raw log is longer than the size cap of \<open>1024 * 1024\<close> code units, or
  has more lines than the cap of \<open>50000\<close>, the extractor answers the fixed advisory text:
  the answer is the same for every such log, so no content of its lines, a marker that
  would match included, has a part in it.
\<close>

theorem filterLogsForMethod_too_large:
  assumes "MAX_LOG_SIZE < length debugLog \<or> MAX_LINES < length (jsSplit newline debugLog)"
  shows "filterLogsForMethod debugLog className methodName setupMethodName
           = ''Log is too large to display. Please check the raw logs on Salesforce.''"
proof -
  have ne: "debugLog \<noteq> []"
    using assms by (auto simp: MAX_LINES_def)
  have nl: "debugLog \<noteq> ''No logs found''"
    using assms no_logs_found_small by auto
  show ?thesis
    using assms ne nl by (auto simp: filterLogsForMethod_def Let_def tooLarge_def)
qed

theorem filterLogsForMethod_too_large_witness:
  "MAX_LOG_SIZE < length (''CODE_UNIT_STARTED|ClsA.testFoo'' @ replicate MAX_LOG_SIZE (CHR ''x''))
   \<and> filterLogsForMethod (''CODE_UNIT_STARTED|ClsA.testFoo'' @ replicate MAX_LOG_SIZE (CHR ''x''))
        ''ClsA'' ''testFoo'' None
      = ''Log is too large to display. Please check the raw logs on Salesforce.''"
  using filterLogsForMethod_too_large
    [of "''CODE_UNIT_STARTED|ClsA.testFoo'' @ replicate MAX_LOG_SIZE (CHR ''x'')"
        "''ClsA''" "''testFoo''" None]
  by simp

subsection \<open>The setup section and the test section\<close>

lemma flushSection_flags [simp]:
  "inSetupMethod (flushSection st) = inSetupMethod st"
  "inTestMethod (flushSection st) = inTestMethod st"
  "currentSection (flushSection st) = []"
  by (simp_all add: flushSection_def)

lemma filterStep_exclusive:
  assumes "\<not> (inSetupMethod st \<and> inTestMethod st)"
  shows "\<not> (inSetupMethod (filterStep c m s sn st line) \<and> inTestMethod (filterStep c m s sn st line))"
  using assms by (auto simp: filterStep_def finishedStep_def openSetup_def openTest_def Let_def)

lemma foldl_filterStep_exclusive:
  assumes "\<not> (inSetupMethod st \<and> inTestMethod st)"
  shows "\<not> (inSetupMethod (foldl (filterStep c m s sn) st ls) \<and> inTestMethod (foldl (filterStep c m s sn) st ls))"
  using assms
proof (induction ls arbitrary: st)
  case Nil
  then show ?case by simp
next
  case (Cons l ls)
  show ?case
    unfolding foldl_Cons by (rule Cons.IH) (rule filterStep_exclusive [OF Cons.prems])
qed

lemma extractLoop_exclusive:
  "\<not> (inSetupMethod (extractLoop cn mn sn ls) \<and> inTestMethod (extractLoop cn mn sn ls))"
  unfolding extractLoop_def by (rule foldl_filterStep_exclusive) (simp add: initialExtract_def)

lemma extractLoop_Suc:
  assumes "n < length logLines"
  shows "extractLoop cn mn sn (take (Suc n) logLines)
     = filterStep (sanitize cn) (sanitize mn) (safeSetupName sn) sn
         (extractLoop cn mn sn (take n logLines)) (logLines ! n)"
  using assms by (simp add: extractLoop_def take_Suc_conv_app_nth)

lemma openSetup_flush:
  assumes "\<not> inSetupMethod st" "inTestMethod st"
  shows "testMethodSections (openSetup line st) = testMethodSections st @ currentSection st"
    "setupMethodSections (openSetup line st) = setupMethodSections st"
    "currentSection (openSetup line st) = [line]"
    "inSetupMethod (openSetup line st)" "\<not> inTestMethod (openSetup line st)"
  using assms by (simp_all add: openSetup_def flushSection_def Let_def)

lemma openTest_flush:
  assumes "inSetupMethod st"
  shows "setupMethodSections (openTest line st) = setupMethodSections st @ currentSection st"
    "testMethodSections (openTest line st) = testMethodSections st"
    "currentSection (openTest line st) = [line]"
    "inTestMethod (openTest line st)" "\<not> inSetupMethod (openTest line st)"
  using assms by (simp_all add: openTest_def flushSection_def Let_def)

text \<open>
  Claim C8. After any number of iterations of the extractor's loop, at most one of the flags
  \<open>inSetupMethod\<close> and \<open>inTestMethod\<close> is set. When the next line is a start marker
  of the setup method and the test section is open, the lines buffered in
  \<open>currentSection\<close> are appended to \<open>testMethodSections\<close>, and then the setup
  section alone is open, with the marker line as its buffer; and the same with the two
  sections exchanged, for a start marker of the test method that is not one of the setup
  method.
\<close>

theorem extractLoop_sections_exclusive:
  fixes cn mn :: string and sn :: "string option" and logLines :: "string list"
  shows "\<not> (inSetupMethod (extractLoop cn mn sn (take n logLines))
            \<and> inTestMethod (extractLoop cn mn sn (take n logLines)))
    \<and> (n < length logLines
        \<and> jsIncludes (logLines ! n) ''CODE_UNIT_STARTED''
        \<and> safeSetupName sn \<noteq> []
        \<and> jsIncludes (logLines ! n) (qualifiedName (sanitize cn) (safeSetupName sn))
        \<and> inTestMethod (extractLoop cn mn sn (take n logLines))
       \<longrightarrow> testMethodSections (extractLoop cn mn sn (take (Suc n) logLines))
             = testMethodSections (extractLoop cn mn sn (take n logLines))
               @ currentSection (extractLoop cn mn sn (take n logLines))
         \<and> currentSection (extractLoop cn mn sn (take (Suc n) logLines)) = [logLines ! n]
         \<and> inSetupMethod (extractLoop cn mn sn (take (Suc n) logLines))
         \<and> \<not> inTestMethod (extractLoop cn mn sn (take (Suc n) logLines)))
    \<and> (n < length logLines
        \<and> jsIncludes (logLines ! n) ''CODE_UNIT_STARTED''
        \<and> \<not> (safeSetupName sn \<noteq> []
              \<and> jsIncludes (logLines ! n) (qualifiedName (sanitize cn) (safeSetupName sn)))
        \<and> jsIncludes (logLines ! n) (qualifiedName (sanitize cn) (sanitize mn))
        \<and> inSetupMethod (extractLoop cn mn sn (take n logLines))
       \<longrightarrow> setupMethodSections (extractLoop cn mn sn (take (Suc n) logLines))
             = setupMethodSections (extractLoop cn mn sn (take n logLines))
               @ currentSection (extractLoop cn mn sn (take n logLines))
         \<and> currentSection (extractLoop cn mn sn (take (Suc n) logLines)) = [logLines ! n]
         \<and> inTestMethod (extractLoop cn mn sn (take (Suc n) logLines))
         \<and> \<not> inSetupMethod (extractLoop cn mn sn (take (Suc n) logLines)))"
proof (intro conjI impI)
  show "\<not> (inSetupMethod (extractLoop cn mn sn (take n logLines))
            \<and> inTestMethod (extractLoop cn mn sn (take n logLines)))"
    by (rule extractLoop_exclusive)
next
  assume a: "n < length logLines
        \<and> jsIncludes (logLines ! n) ''CODE_UNIT_STARTED''
        \<and> safeSetupName sn \<noteq> []
        \<and> jsIncludes (logLines ! n) (qualifiedName (sanitize cn) (safeSetupName sn))
        \<and> inTestMethod (extractLoop cn mn sn (take n logLines))"
  let ?st = "extractLoop cn mn sn (take n logLines)"
  have ns: "\<not> inSetupMethod ?st" using a extractLoop_exclusive [of cn mn sn "take n logLines"] by blast
  have ns0: "\<not> inSetupMethod (?st\<lparr>lastCodeUnitStarted := logLines ! n\<rparr>)"
    and it0: "inTestMethod (?st\<lparr>lastCodeUnitStarted := logLines ! n\<rparr>)" using ns a by simp_all
  have step: "extractLoop cn mn sn (take (Suc n) logLines)
      = openSetup (logLines ! n) (?st\<lparr>lastCodeUnitStarted := logLines ! n\<rparr>)"
    using a by (simp add: extractLoop_Suc filterStep_def Let_def)
  show "testMethodSections (extractLoop cn mn sn (take (Suc n) logLines))
             = testMethodSections ?st @ currentSection ?st"
    "currentSection (extractLoop cn mn sn (take (Suc n) logLines)) = [logLines ! n]"
    "inSetupMethod (extractLoop cn mn sn (take (Suc n) logLines))"
    "\<not> inTestMethod (extractLoop cn mn sn (take (Suc n) logLines))"
    unfolding step using openSetup_flush [OF ns0 it0, of "logLines ! n"] by simp_all
next
  assume a: "n < length logLines
        \<and> jsIncludes (logLines ! n) ''CODE_UNIT_STARTED''
        \<and> \<not> (safeSetupName sn \<noteq> []
              \<and> jsIncludes (logLines ! n) (qualifiedName (sanitize cn) (safeSetupName sn)))
        \<and> jsIncludes (logLines ! n) (qualifiedName (sanitize cn) (sanitize mn))
        \<and> inSetupMethod (extractLoop cn mn sn (take n logLines))"
  let ?st = "extractLoop cn mn sn (take n logLines)"
  have is0: "inSetupMethod (?st\<lparr>lastCodeUnitStarted := logLines ! n\<rparr>)" using a by simp
  have step: "extractLoop cn mn sn (take (Suc n) logLines)
      = openTest (logLines ! n) (?st\<lparr>lastCodeUnitStarted := logLines ! n\<rparr>)"
    using a by (auto simp add: extractLoop_Suc filterStep_def Let_def)
  show "setupMethodSections (extractLoop cn mn sn (take (Suc n) logLines))
             = setupMethodSections ?st @ currentSection ?st"
    "currentSection (extractLoop cn mn sn (take (Suc n) logLines)) = [logLines ! n]"
    "inTestMethod (extractLoop cn mn sn (take (Suc n) logLines))"
    "\<not> inSetupMethod (extractLoop cn mn sn (take (Suc n) logLines))"
    unfolding step using openTest_flush [OF is0, of "logLines ! n"] by simp_all
qed

theorem extractLoop_sections_exclusive_witness:
  "(2 < length [''CODE_UNIT_STARTED|ClsA.testFoo'', ''t1'', ''CODE_UNIT_STARTED|ClsA.setupData'']
    \<and> inTestMethod (extractLoop ''ClsA'' ''testFoo'' (Some ''setupData'')
          (take 2 [''CODE_UNIT_STARTED|ClsA.testFoo'', ''t1'', ''CODE_UNIT_STARTED|ClsA.setupData'']))
    \<and> testMethodSections (extractLoop ''ClsA'' ''testFoo'' (Some ''setupData'')
          (take (Suc 2) [''CODE_UNIT_STARTED|ClsA.testFoo'', ''t1'', ''CODE_UNIT_STARTED|ClsA.setupData'']))
        = [''CODE_UNIT_STARTED|ClsA.testFoo'', ''t1'']
    \<and> inSetupMethod (extractLoop ''ClsA'' ''testFoo'' (Some ''setupData'')
          (take (Suc 2) [''CODE_UNIT_STARTED|ClsA.testFoo'', ''t1'', ''CODE_UNIT_STARTED|ClsA.setupData''])))
   \<and> (2 < length [''CODE_UNIT_STARTED|ClsA.setupData'', ''s1'', ''CODE_UNIT_STARTED|ClsA.testFoo'']
    \<and> inSetupMethod (extractLoop ''ClsA'' ''testFoo'' (Some ''setupData'')
          (take 2 [''CODE_UNIT_STARTED|ClsA.setupData'', ''s1'', ''CODE_UNIT_STARTED|ClsA.testFoo'']))
    \<and> setupMethodSections (extractLoop ''ClsA'' ''testFoo'' (Some ''setupData'')
          (take (Suc 2) [''CODE_UNIT_STARTED|ClsA.setupData'', ''s1'', ''CODE_UNIT_STARTED|ClsA.testFoo'']))
        = [''CODE_UNIT_STARTED|ClsA.setupData'', ''s1'']
    \<and> inTestMethod (extractLoop ''ClsA'' ''testFoo'' (Some ''setupData'')
          (take (Suc 2) [''CODE_UNIT_STARTED|ClsA.setupData'', ''s1'', ''CODE_UNIT_STARTED|ClsA.testFoo''])))"
proof -
  let ?A = "[''CODE_UNIT_STARTED|ClsA.testFoo'', ''t1'', ''CODE_UNIT_STARTED|ClsA.setupData'']"
  let ?B = "[''CODE_UNIT_STARTED|ClsA.setupData'', ''s1'', ''CODE_UNIT_STARTED|ClsA.testFoo'']"
  let ?run = "extractLoop ''ClsA'' ''testFoo'' (Some ''setupData'')"
  have hA: "2 < length ?A
        \<and> jsIncludes (?A ! 2) ''CODE_UNIT_STARTED''
        \<and> safeSetupName (Some ''setupData'') \<noteq> []
        \<and> jsIncludes (?A ! 2) (qualifiedName (sanitize ''ClsA'') (safeSetupName (Some ''setupData'')))
        \<and> inTestMethod (?run (take 2 ?A))"
    by code_simp
  have vA: "testMethodSections (?run (take 2 ?A)) @ currentSection (?run (take 2 ?A))
        = [''CODE_UNIT_STARTED|ClsA.testFoo'', ''t1'']"
    by code_simp
  have hB: "2 < length ?B
        \<and> jsIncludes (?B ! 2) ''CODE_UNIT_STARTED''
        \<and> \<not> (safeSetupName (Some ''setupData'') \<noteq> []
              \<and> jsIncludes (?B ! 2) (qualifiedName (sanitize ''ClsA'') (safeSetupName (Some ''setupData''))))
        \<and> jsIncludes (?B ! 2) (qualifiedName (sanitize ''ClsA'') (sanitize ''testFoo''))
        \<and> inSetupMethod (?run (take 2 ?B))"
    by code_simp
  have vB: "setupMethodSections (?run (take 2 ?B)) @ currentSection (?run (take 2 ?B))
        = [''CODE_UNIT_STARTED|ClsA.setupData'', ''s1'']"
    by code_simp
  from hA extractLoop_sections_exclusive [of "''ClsA''" "''testFoo''" "Some ''setupData''" 2 ?A]
  have cA: "testMethodSections (?run (take (Suc 2) ?A))
             = testMethodSections (?run (take 2 ?A)) @ currentSection (?run (take 2 ?A))
         \<and> inSetupMethod (?run (take (Suc 2) ?A))"
    by blast
  from hB extractLoop_sections_exclusive [of "''ClsA''" "''testFoo''" "Some ''setupData''" 2 ?B]
  have cB: "setupMethodSections (?run (take (Suc 2) ?B))
             = setupMethodSections (?run (take 2 ?B)) @ currentSection (?run (take 2 ?B))
         \<and> inTestMethod (?run (take (Suc 2) ?B))"
    by blast
  show ?thesis
    using hA hB cA cB vA vB by simp
qed

section \<open>Properties of the analyzer\<close>

subsection \<open>Code coverage\<close>

lemmas roundPercent_eval =
  roundPercent_def toDouble_def floorLog2_def roundHalfEven_def mathRound_def compute_floorlog

text \<open>
  Claim C4 as stated fails: in a coverage text with a ratio and no percentage the ratio is
  the first extraction to succeed, and the summary it creates has the percentage 75.
\<close>

theorem processCodeCoverage_ratio_counterexample:
  "matchPercent ''3/4'' = None
   \<and> codeCoverage (processCodeCoverage initializeAnalysis
                      [''12:00:00.1 (1)'', ''CODE_COVERAGE'', ''3/4''])
     = Some \<lparr>coveragePercentage = Num 75, linesCovered = 3, linesTotal = 4, uncoveredLines = []\<rparr>"
proof -
  have p: "matchPercent ''3/4'' = None" by code_simp
  have r: "matchRatio ''3/4'' = Some (''3'', ''4'')" by code_simp
  have u: "matchUncovered ''3/4'' = None" by code_simp
  have d: "parseDec ''3'' = 3" "parseDec ''4'' = 4" by code_simp+
  have q: "jsPercent 3 4 = Num 75" by (simp add: jsPercent_def roundPercent_eval)
  show ?thesis
    by (simp add: processCodeCoverage_def coveragePercentStep_def coverageRatioStep_def
          coverageUncoveredStep_def initializeAnalysis_def p r u d q)
qed

lemma coveragePercentStep_cc:
  "codeCoverage (coveragePercentStep t a) =
     (case matchPercent t of None \<Rightarrow> codeCoverage a
      | Some d \<Rightarrow> Some (case codeCoverage a of
          None \<Rightarrow> \<lparr>coveragePercentage = Num (parseDec d), linesCovered = 0, linesTotal = 0, uncoveredLines = []\<rparr>
        | Some cc \<Rightarrow> cc\<lparr>coveragePercentage := Num (parseDec d)\<rparr>))"
  by (simp add: coveragePercentStep_def split: option.splits)

lemma coverageRatioStep_cc:
  "codeCoverage (coverageRatioStep t a) =
     (case matchRatio t of None \<Rightarrow> codeCoverage a
      | Some (x, y) \<Rightarrow> Some (case codeCoverage a of
          None \<Rightarrow> \<lparr>coveragePercentage = jsPercent (parseDec x) (parseDec y),
                    linesCovered = parseDec x, linesTotal = parseDec y, uncoveredLines = []\<rparr>
        | Some cc \<Rightarrow> cc\<lparr>linesCovered := parseDec x, linesTotal := parseDec y\<rparr>))"
  by (simp add: coverageRatioStep_def split: option.splits prod.splits)

lemma coverageUncoveredStep_cc:
  "codeCoverage (coverageUncoveredStep t a) =
     (case matchUncovered t of None \<Rightarrow> codeCoverage a
      | Some v \<Rightarrow> Some (case codeCoverage a of
          None \<Rightarrow> \<lparr>coveragePercentage = Num 0, linesCovered = 0, linesTotal = 0,
                    uncoveredLines = parseUncoveredLines v\<rparr>
        | Some cc \<Rightarrow> cc\<lparr>uncoveredLines := parseUncoveredLines v\<rparr>))"
  by (simp add: coverageUncoveredStep_def split: option.splits)

text \<open>
  Claim C4, as the code has it. After a code-coverage event each field of the summary is
  what its own extraction read, when that extraction matched; else what the summary held
  before; else the default, zero or the empty list. The one field that is not so is the
  percentage of a summary created by the ratio: it is derived from the ratio, rounded, and
  is not zero. No summary is created when none of the three extractions matches.
\<close>

theorem processCodeCoverage_fields:
  "codeCoverage (processCodeCoverage a parts) =
    (let t = jsJoin ''|'' (drop 2 parts); p = matchPercent t; r = matchRatio t; u = matchUncovered t in
     if p = None \<and> r = None \<and> u = None then codeCoverage a
     else Some \<lparr>
       coveragePercentage = (case p of Some d \<Rightarrow> Num (parseDec d) | None \<Rightarrow>
          (case codeCoverage a of Some cc \<Rightarrow> coveragePercentage cc | None \<Rightarrow>
            (case r of Some (x, y) \<Rightarrow> jsPercent (parseDec x) (parseDec y) | None \<Rightarrow> Num 0))),
       linesCovered = (case r of Some (x, y) \<Rightarrow> parseDec x | None \<Rightarrow>
          (case codeCoverage a of Some cc \<Rightarrow> linesCovered cc | None \<Rightarrow> 0)),
       linesTotal = (case r of Some (x, y) \<Rightarrow> parseDec y | None \<Rightarrow>
          (case codeCoverage a of Some cc \<Rightarrow> linesTotal cc | None \<Rightarrow> 0)),
       uncoveredLines = (case u of Some v \<Rightarrow> parseUncoveredLines v | None \<Rightarrow>
          (case codeCoverage a of Some cc \<Rightarrow> uncoveredLines cc | None \<Rightarrow> []))\<rparr>)"
proof -
  let ?t = "jsJoin ''|'' (drop 2 parts)"
  show ?thesis
  proof (cases "codeCoverage a")
    case None
    then show ?thesis
      by (cases "matchPercent ?t"; cases "matchRatio ?t"; cases "matchUncovered ?t")
         (simp_all add: processCodeCoverage_def Let_def coveragePercentStep_cc
            coverageRatioStep_cc coverageUncoveredStep_cc split: prod.splits)
  next
    case (Some cc)
    then show ?thesis
      by (cases "matchPercent ?t"; cases "matchRatio ?t"; cases "matchUncovered ?t"; cases cc)
         (simp_all add: processCodeCoverage_def Let_def coveragePercentStep_cc
            coverageRatioStep_cc coverageUncoveredStep_cc split: prod.splits)
  qed
qed

subsection \<open>Stack traces\<close>

text \<open>
  The look-ahead of \<^verbatim>\<open>processException\<close> never reads a line at the index of the
  event plus 30 or beyond: cutting the log there does not change the stack trace.
\<close>

lemma stackTraceLoop_window:
  "stackTraceLoop (take (currentIndex + 30) lines) currentIndex j st
     = stackTraceLoop lines currentIndex j st"
proof (induction lines currentIndex j st rule: stackTraceLoop.induct)
  case (1 lines currentIndex j st)
  show ?case
  proof (cases "j < length lines \<and> j < currentIndex + 30")
    case True
    then have t: "j < length (take (currentIndex + 30) lines) \<and> j < currentIndex + 30"
      and n: "take (currentIndex + 30) lines ! j = lines ! j" by simp_all
    show ?thesis
    proof (cases "isEventHeader (lines ! j)")
      case True
      then show ?thesis
        using t n \<open>j < length lines \<and> j < currentIndex + 30\<close>
        by (subst stackTraceLoop.simps, subst (2) stackTraceLoop.simps) (simp add: Let_def)
    next
      case False
      then show ?thesis
        using t n \<open>j < length lines \<and> j < currentIndex + 30\<close> "1.IH" [OF _ refl False]
        by (subst stackTraceLoop.simps, subst (2) stackTraceLoop.simps) (simp add: Let_def)
    qed
  next
    case False
    then show ?thesis
      by (subst stackTraceLoop.simps, subst (2) stackTraceLoop.simps) auto
  qed
qed

text \<open>
  Claim C5. The log is a fatal-error line followed by thirty lines, none blank and none an
  event header: twenty-nine lines \<open>a\<close> and then a line \<open>z\<close>. The stack trace the
  analyzer records holds the twenty-nine lines \<open>a\<close> and not the thirtieth line \<open>z\<close>:
  the loop runs while \<open>j < currentIndex + 30\<close>, from \<open>currentIndex + 1\<close>, which is
  twenty-nine lines, where its comment and the claim have thirty.
\<close>

theorem analyzeApexLog_stack_trace_29_lines:
  "map_option (\<lambda>a. map stackTrace (errors a))
     (analyzeApexLog (''1:2:3|FATAL_ERROR|boom'' @ concat (replicate 29 (newline # ''a''))
                        @ newline # ''z''))
   = Some [Some (''a'' @ concat (replicate 28 (newline # ''a'')))]"
  by code_simp

subsection \<open>The message of a debug statement\<close>

lemma absorbLines_eq:
  "absorbLines ls msg k =
     (msg @ concat (map ((#) newline) (takeWhile (\<lambda>l. \<not> hasTimestamp l) ls)),
      k + length (takeWhile (\<lambda>l. \<not> hasTimestamp l) ls))"
  by (induction ls arbitrary: msg k) simp_all

lemma replaceEscapedNewlines_hd:
  "replaceEscapedNewlines (b # cs) = x # xs \<Longrightarrow> x = b \<or> x = newline"
  by (cases cs) (auto split: if_splits)

lemma replaceEscapedNewlines_no_escape:
  "\<not> jsIncludes (replaceEscapedNewlines s) [backslash, CHR ''n'']"
proof (induction s rule: replaceEscapedNewlines.induct)
  case (1 a b cs)
  show ?case
  proof (cases "a = backslash \<and> b = CHR ''n''")
    case True
    then show ?thesis using 1 by (simp add: newline_def backslash_def)
  next
    case False
    have "\<not> prefix [backslash, CHR ''n''] (a # replaceEscapedNewlines (b # cs))"
    proof
      assume p: "prefix [backslash, CHR ''n''] (a # replaceEscapedNewlines (b # cs))"
      then obtain xs where x: "a = backslash" "replaceEscapedNewlines (b # cs) = CHR ''n'' # xs"
        by (auto simp: prefix_def)
      from replaceEscapedNewlines_hd [OF x(2)] have "b = CHR ''n''"
        by (auto simp: newline_def)
      with x(1) False show False by simp
    qed
    moreover have "replaceEscapedNewlines (a # b # cs) = a # replaceEscapedNewlines (b # cs)"
      using False by auto
    moreover have "\<not> jsIncludes (replaceEscapedNewlines (b # cs)) [backslash, CHR ''n'']"
      using False "1.IH"(2) by blast
    ultimately show ?thesis by simp
  qed
qed (simp_all add: backslash_def)

lemma jsIncludes_drop: "\<not> jsIncludes s p \<Longrightarrow> p \<noteq> [] \<Longrightarrow> \<not> jsIncludes (drop n s) p"
proof (induction s arbitrary: n)
  case Nil
  then show ?case by simp
next
  case (Cons c cs)
  then show ?case by (cases n) auto
qed

lemma removeDebugPrefix_no_escape:
  "\<not> jsIncludes s [backslash, CHR ''n''] \<Longrightarrow> \<not> jsIncludes (removeDebugPrefix s) [backslash, CHR ''n'']"
  by (auto simp: removeDebugPrefix_def stripPrefix_def intro: jsIncludes_drop [THEN notE])

text \<open>
  Claim C7 as stated fails on the continuation lines: a user-debug line followed by the
  line \<open>x\ny\<close>, with a backslash and an \<open>n\<close>, is stored with that backslash and
  \<open>n\<close> in its message.
\<close>

theorem userDebug_continuation_escape_counterexample:
  "map_option (\<lambda>a. map message (debugLines a))
     (analyzeApexLog (''1:2:3|USER_DEBUG|[1]|DEBUG|a'' @ [newline] @ ''x'' @ [backslash] @ ''ny''))
    = Some [''a'' @ [newline] @ ''x'' @ [backslash] @ ''ny'']
   \<and> jsIncludes (''a'' @ [newline] @ ''x'' @ [backslash] @ ''ny'') [backslash, CHR ''n'']"
  by code_simp

text \<open>
  Claim C7, as the code has it. The message that \<^verbatim>\<open>processUserDebug\<close> stores is the
  text of the event line itself (the fields from the fourth on, joined by bars and trimmed),
  with every backslash followed by \<open>n\<close> turned into a newline and then one leading
  \<open>DEBUG|\<close> removed, so that no backslash followed by \<open>n\<close> is left in it; after
  it come the continuation lines the handler absorbs, each behind a newline and each
  unchanged. A line that \<^verbatim>\<open>processContinuedDebugLine\<close> appends later comes behind a
  newline with one leading \<open>DEBUG|\<close> removed and is otherwise unchanged.
\<close>

theorem userDebug_message_stored:
  "(processUserDebug a lines i parts rel ts = Inr (i', a') \<longrightarrow>
      map message (debugLines a') = map message (debugLines a)
        @ [removeDebugPrefix (replaceEscapedNewlines (trim (jsJoin ''|'' (drop 3 parts))))
           @ concat (map ((#) newline) (takeWhile (\<lambda>l. \<not> hasTimestamp l) (drop (i + 1) lines)))]
      \<and> \<not> jsIncludes (removeDebugPrefix (replaceEscapedNewlines (trim (jsJoin ''|'' (drop 3 parts)))))
             [backslash, CHR ''n''])
   \<and> (debugLines a \<noteq> [] \<longrightarrow>
      map message (debugLines (processContinuedDebugLine a line))
        = map message (butlast (debugLines a))
          @ [message (last (debugLines a)) @ newline # removeDebugPrefix line])"
proof (intro conjI impI)
  assume e: "processUserDebug a lines i parts rel ts = Inr (i', a')"
  then show "map message (debugLines a') = map message (debugLines a)
        @ [removeDebugPrefix (replaceEscapedNewlines (trim (jsJoin ''|'' (drop 3 parts))))
           @ concat (map ((#) newline) (takeWhile (\<lambda>l. \<not> hasTimestamp l) (drop (i + 1) lines)))]"
    by (auto simp: processUserDebug_def absorbLines_eq pushEvent_def Let_def split: if_splits)
next
  show "\<not> jsIncludes (removeDebugPrefix (replaceEscapedNewlines (trim (jsJoin ''|'' (drop 3 parts)))))
             [backslash, CHR ''n'']"
    by (rule removeDebugPrefix_no_escape) (rule replaceEscapedNewlines_no_escape)
next
  assume "debugLines a \<noteq> []"
  then show "map message (debugLines (processContinuedDebugLine a line))
        = map message (butlast (debugLines a))
          @ [message (last (debugLines a)) @ newline # removeDebugPrefix line]"
    by (simp add: processContinuedDebugLine_def Let_def)
qed

theorem userDebug_message_stored_witness:
  "isl (processUserDebug initializeAnalysis
          [''1:2:3|USER_DEBUG|[1]|DEBUG|a'' @ [backslash] @ ''nb'', ''x'' @ [backslash] @ ''ny''] 0
          [''1:2:3'', ''USER_DEBUG'', ''[1]'', ''DEBUG'', ''a'' @ [backslash] @ ''nb''] (Ms 0) ''1:2:3'') = False
   \<and> map message (debugLines (snd (projr (processUserDebug initializeAnalysis
          [''1:2:3|USER_DEBUG|[1]|DEBUG|a'' @ [backslash] @ ''nb'', ''x'' @ [backslash] @ ''ny''] 0
          [''1:2:3'', ''USER_DEBUG'', ''[1]'', ''DEBUG'', ''a'' @ [backslash] @ ''nb''] (Ms 0) ''1:2:3''))))
      = [''a'' @ [newline] @ ''b'' @ [newline] @ ''x'' @ [backslash] @ ''ny'']
   \<and> map message (debugLines (processContinuedDebugLine
          (initializeAnalysis\<lparr>debugLines := [\<lparr>lineNumber = 1, message = ''a'', timestamp = ''1:2:3''\<rparr>]\<rparr>)
          (''DEBUG|y'' @ [backslash] @ ''nz'')))
      = [''a'' @ [newline] @ ''y'' @ [backslash] @ ''nz'']"
proof -
  let ?lines = "[''1:2:3|USER_DEBUG|[1]|DEBUG|a'' @ [backslash] @ ''nb'', ''x'' @ [backslash] @ ''ny'']"
  let ?parts = "[''1:2:3'', ''USER_DEBUG'', ''[1]'', ''DEBUG'', ''a'' @ [backslash] @ ''nb'']"
  let ?r = "processUserDebug initializeAnalysis ?lines 0 ?parts (Ms 0) ''1:2:3''"
  let ?a = "initializeAnalysis\<lparr>debugLines := [\<lparr>lineNumber = 1, message = ''a'', timestamp = ''1:2:3''\<rparr>]\<rparr>"
  have l: "isl ?r = False" by code_simp
  then obtain i' a' where e: "?r = Inr (i', a')" by (cases ?r) auto
  have v1: "map message (debugLines initializeAnalysis)
        @ [removeDebugPrefix (replaceEscapedNewlines (trim (jsJoin ''|'' (drop 3 ?parts))))
           @ concat (map ((#) newline) (takeWhile (\<lambda>l. \<not> hasTimestamp l) (drop (0 + 1) ?lines)))]
      = [''a'' @ [newline] @ ''b'' @ [newline] @ ''x'' @ [backslash] @ ''ny'']"
    by code_simp
  have v2: "map message (butlast (debugLines ?a))
          @ [message (last (debugLines ?a)) @ newline # removeDebugPrefix (''DEBUG|y'' @ [backslash] @ ''nz'')]
      = [''a'' @ [newline] @ ''y'' @ [backslash] @ ''nz'']"
    by code_simp
  have n: "debugLines ?a \<noteq> []" by simp
  from userDebug_message_stored [of initializeAnalysis ?lines 0 ?parts "Ms 0" "''1:2:3''" i' a'] e v1
  have c1: "map message (debugLines a') = [''a'' @ [newline] @ ''b'' @ [newline] @ ''x'' @ [backslash] @ ''ny'']"
    by simp
  from userDebug_message_stored [of ?a _ _ _ _ _ _ _ "''DEBUG|y'' @ [backslash] @ ''nz''"] n v2
  have c2: "map message (debugLines (processContinuedDebugLine ?a (''DEBUG|y'' @ [backslash] @ ''nz'')))
      = [''a'' @ [newline] @ ''y'' @ [backslash] @ ''nz'']"
    by simp
  show ?thesis using l e c1 c2 by simp
qed

subsection \<open>The loop returns\<close>

lemma absorbLines_index: "absorbLines ls msg k = (m, k') \<Longrightarrow> k \<le> k'"
  by (simp add: absorbLines_eq)

lemma processUserDebug_index:
  "processUserDebug a lines i parts rel ts = Inr (i', a') \<Longrightarrow> i \<le> i'"
  by (auto simp: processUserDebug_def absorbLines_eq Let_def split: if_splits)

lemma dispatch_index:
  "dispatch lines i line parts st = Returned i' st' \<Longrightarrow> i \<le> i'"
  unfolding dispatch_def Let_def
  by (auto split: if_splits sum.splits prod.splits dest: processUserDebug_index)

lemma tryBlock_index:
  "tryBlock lines i st = Returned i' st' \<Longrightarrow> i \<le> i'"
  unfolding tryBlock_def Let_def
  by (auto split: if_splits dest: dispatch_index)

lemma analyzeLoop_returns: "\<exists>r. analyzeLoop lines i st = Some r"
proof (induction "length lines - i" arbitrary: i st rule: less_induct)
  case less
  show ?case
  proof (cases "i < length lines")
    case False
    then show ?thesis by (subst analyzeLoop.simps) simp
  next
    case True
    show ?thesis
    proof (cases "trim (lines ! i) = []")
      case True
      from \<open>i < length lines\<close> have "length lines - (i + 1) < length lines - i" by simp
      from less [OF this] obtain r where "analyzeLoop lines (i + 1) st = Some r" by blast
      then show ?thesis using True \<open>i < length lines\<close> by (subst analyzeLoop.simps) simp
    next
      case False
      show ?thesis
      proof (cases "tryBlock lines i st")
        case (Returned i' st')
        then have "i \<le> i'" by (rule tryBlock_index)
        with \<open>i < length lines\<close> have "length lines - (i' + 1) < length lines - i" by simp
        from less [OF this] obtain r where "analyzeLoop lines (i' + 1) st' = Some r" by blast
        then show ?thesis using False Returned \<open>i < length lines\<close>
          by (subst analyzeLoop.simps) simp
      next
        case (Raised e st')
        from \<open>i < length lines\<close> have "length lines - (i + 1) < length lines - i" by simp
        from less [OF this] obtain r where "analyzeLoop lines (i + 1) st' = Some r" by blast
        then show ?thesis using False Raised \<open>i < length lines\<close>
          by (subst analyzeLoop.simps) simp
      qed
    qed
  qed
qed

text \<open>
  Claim C1. For every text, the loop of the analyzer comes to an end and
  \<^verbatim>\<open>analyzeApexLog\<close> returns an analysis: the counter that \<^verbatim>\<open>processUserDebug\<close>
  hands back is never below the one it was given. The extractor is built from total
  operations and loops over the lines once, so it has an answer for all arguments. And when
  the \<^verbatim>\<open>try\<close> block raises on a line, the loop goes on from the next line, with the
  variables as the raise left them.
\<close>

theorem analyzeApexLog_returns:
  "(\<exists>a. analyzeApexLog logText = Some a)
   \<and> (\<exists>r. filterLogsForMethod debugLog className methodName setupMethodName = r)
   \<and> (i < length lines \<and> trim (lines ! i) \<noteq> [] \<and> tryBlock lines i st = Raised e st'
        \<longrightarrow> analyzeLoop lines i st = analyzeLoop lines (i + 1) st')"
proof (intro conjI impI)
  from analyzeLoop_returns [of "jsSplit newline logText" 0 initialState]
  show "\<exists>a. analyzeApexLog logText = Some a"
    by (auto simp: analyzeApexLog_def)
next
  show "\<exists>r. filterLogsForMethod debugLog className methodName setupMethodName = r"
    by simp
next
  assume "i < length lines \<and> trim (lines ! i) \<noteq> [] \<and> tryBlock lines i st = Raised e st'"
  then show "analyzeLoop lines i st = analyzeLoop lines (i + 1) st'"
    by (subst analyzeLoop.simps) simp
qed

theorem analyzeApexLog_returns_witness:
  "0 < length [''1:2:3|USER_DEBUG'', ''1:2:4|DML_BEGIN|x'']
   \<and> trim ([''1:2:3|USER_DEBUG'', ''1:2:4|DML_BEGIN|x''] ! 0) \<noteq> []
   \<and> tryBlock [''1:2:3|USER_DEBUG'', ''1:2:4|DML_BEGIN|x''] 0 initialState
       = Raised TypeError (initialState\<lparr>lastDebugLineIndex := 0\<rparr>)
   \<and> analyzeLoop [''1:2:3|USER_DEBUG'', ''1:2:4|DML_BEGIN|x''] 0 initialState
       = analyzeLoop [''1:2:3|USER_DEBUG'', ''1:2:4|DML_BEGIN|x''] (0 + 1)
           (initialState\<lparr>lastDebugLineIndex := 0\<rparr>)
   \<and> map_option (\<lambda>a. numDmlStatements (summary a))
        (analyzeApexLog (''1:2:3|USER_DEBUG'' @ newline # ''1:2:4|DML_BEGIN|x'')) = Some 1"
proof -
  let ?L = "[''1:2:3|USER_DEBUG'', ''1:2:4|DML_BEGIN|x'']"
  have h: "0 < length ?L \<and> trim (?L ! 0) \<noteq> []
      \<and> tryBlock ?L 0 initialState = Raised TypeError (initialState\<lparr>lastDebugLineIndex := 0\<rparr>)"
    by code_simp
  have v: "map_option (\<lambda>a. numDmlStatements (summary a))
        (analyzeApexLog (''1:2:3|USER_DEBUG'' @ newline # ''1:2:4|DML_BEGIN|x'')) = Some 1"
    by code_simp
  from h analyzeApexLog_returns [of _ _ _ _ _ 0 ?L initialState TypeError "initialState\<lparr>lastDebugLineIndex := 0\<rparr>"]
  have "analyzeLoop ?L 0 initialState = analyzeLoop ?L (0 + 1) (initialState\<lparr>lastDebugLineIndex := 0\<rparr>)"
    by blast
  with h v show ?thesis by blast
qed

subsection \<open>A debug statement with continuation lines\<close>

lemma jsSplit_no_sep: "sep \<notin> set a \<Longrightarrow> jsSplit sep a = [a]"
  by (induction a) auto

lemma jsSplit_append: "sep \<notin> set a \<Longrightarrow> jsSplit sep (a @ sep # b) = a # jsSplit sep b"
  by (induction a) auto

lemma jsJoin_jsSplit: "jsJoin [sep] (jsSplit sep s) = s"
proof (induction s)
  case Nil
  then show ?case by simp
next
  case (Cons c cs)
  show ?case
  proof (cases "c = sep")
    case True
    then show ?thesis using Cons by (cases "jsSplit sep cs") auto
  next
    case False
    then show ?thesis using Cons
      by (cases "jsSplit sep cs"; cases "tl (jsSplit sep cs)") auto
  qed
qed

lemma in_set_dropWhile: "c \<in> set s \<Longrightarrow> \<not> P c \<Longrightarrow> c \<in> set (dropWhile P s)"
  by (induction s) auto

lemma trim_not_Nil: "c \<in> set s \<Longrightarrow> \<not> isWhiteSpace c \<Longrightarrow> trim s \<noteq> []"
  unfolding trim_def using in_set_dropWhile [of c "rev (dropWhile isWhiteSpace s)" isWhiteSpace]
    in_set_dropWhile [of c s isWhiteSpace]
  by auto

lemma bar_not_space: "\<not> isWhiteSpace (CHR ''|'')"
  by (simp add: isWhiteSpace_def)

lemma dispatch_user_debug:
  assumes "isUserDebugTag (parts ! 1)"
  shows "dispatch lines i line parts st =
     (case processUserDebug (analysis st) lines i parts
             (RoundMs (ParseFloat (parts ! 0)) (startTime st)) (parts ! 0) of
        Inl e \<Rightarrow> Raised e (st\<lparr>lastDebugLineIndex := int i\<rparr>)
      | Inr (newIndex, a') \<Rightarrow>
          Returned newIndex (st\<lparr>lastDebugLineIndex := int i, analysis := a'\<rparr>))"
  using assms by (simp add: dispatch_def isUserDebugTag_def Let_def)

lemma processUserDebug_Inr:
  assumes "2 < length parts"
  shows "processUserDebug a lines i parts rel ts =
     (let ln = (case matchBracketNumber (parts ! 2) of Some d \<Rightarrow> parseDec d | None \<Rightarrow> 0);
          absorbed = takeWhile (\<lambda>l. \<not> hasTimestamp l) (drop (i + 1) lines);
          msg = removeDebugPrefix (replaceEscapedNewlines (trim (jsJoin ''|'' (drop 3 parts))))
                  @ concat (map ((#) newline) absorbed)
      in Inr (i + length absorbed,
           pushEvent \<lparr>event = ''Debug Log'', timeMs = rel,
               details = Some (''Line '' @ showNat ln @ '': '' @ hd (jsSplit newline msg)
                           @ (if jsIncludes msg [newline] then ''...'' else []))\<rparr>
             (a\<lparr>debugLines := debugLines a @ [\<lparr>lineNumber = ln, message = msg, timestamp = ts\<rparr>]\<rparr>)))"
  using assms by (auto simp: processUserDebug_def absorbLines_eq Let_def)

lemma hasTimestamp_Nil: "\<not> hasTimestamp []"
  by (simp add: hasTimestamp_def timestampPrefix_def digits1_def)

lemma debugLines_finalizeAnalysis [simp]:
  "debugLines (finalizeAnalysis a m) = debugLines a"
  by (simp add: finalizeAnalysis_def Let_def)

lemma debugLines_pushEvent [simp]: "debugLines (pushEvent e a) = debugLines a"
  by (simp add: pushEvent_def)

text \<open>
  Claim C6. The log is a user-debug line, a continuation line that is not blank, and an
  empty last line; neither of the two begins with the time-stamp pattern. The user-debug
  line has the fields \<open>ts\<close>, \<open>tag\<close> and \<open>f2\<close> and then the debug text. The
  analyzer records one debug statement, and its message is the debug text (trimmed, each
  backslash followed by \<open>n\<close> turned into a newline, a leading \<open>DEBUG|\<close> removed),
  a newline, the continuation line, a newline, and the empty string.
\<close>

theorem analyzeApexLog_debug_continuation:
  assumes nl: "newline \<notin> set ts" "newline \<notin> set tag" "newline \<notin> set f2"
      "newline \<notin> set msgText"
    and nlc: "newline \<notin> set cont"
    and bar1: "CHR ''|'' \<notin> set ts" and bar2: "CHR ''|'' \<notin> set tag"
    and bar3: "CHR ''|'' \<notin> set f2"
    and tag: "isUserDebugTag tag"
    and cont: "trim cont \<noteq> []" "\<not> hasTimestamp cont"
  shows "map_option debugLines
           (analyzeApexLog (ts @ ''|'' @ tag @ ''|'' @ f2 @ ''|'' @ msgText @ [newline] @ cont @ [newline]))
     = Some [\<lparr>lineNumber = (case matchBracketNumber f2 of Some d \<Rightarrow> parseDec d | None \<Rightarrow> 0),
              message = removeDebugPrefix (replaceEscapedNewlines (trim msgText))
                          @ [newline] @ cont @ [newline] @ [],
              timestamp = ts\<rparr>]"
proof -
  define L0 where "L0 = ts @ ''|'' @ tag @ ''|'' @ f2 @ ''|'' @ msgText"
  define parts where "parts = ts # tag # f2 # jsSplit (CHR ''|'') msgText"
  let ?lines = "[L0, cont, []]"
  have nb: "newline \<noteq> CHR ''|''" by (simp add: newline_def)
  have "newline \<notin> set L0" using nl nb by (simp add: L0_def)
  from jsSplit_append [OF this, of "cont @ [newline]"] jsSplit_append [OF nlc, of "[]"]
  have lines: "jsSplit newline (L0 @ [newline] @ cont @ [newline]) = ?lines"
    by simp
  have split: "jsSplit (CHR ''|'') L0 = parts"
    using jsSplit_append [OF bar1, of "tag @ ''|'' @ f2 @ ''|'' @ msgText"]
      jsSplit_append [OF bar2, of "f2 @ ''|'' @ msgText"]
      jsSplit_append [OF bar3, of msgText]
    by (simp add: L0_def parts_def)
  have len: "2 < length parts" "\<not> length parts < 2" "parts ! 0 = ts" "parts ! 1 = tag" "parts ! 2 = f2"
    using jsSplit_not_Nil [of "CHR ''|''" msgText]
    by (cases "jsSplit (CHR ''|'') msgText"; simp add: parts_def)+
  have join: "jsJoin ''|'' (drop 3 parts) = msgText"
    using jsJoin_jsSplit [of "CHR ''|''" msgText] by (simp add: parts_def)
  have t0: "trim L0 \<noteq> []"
    by (rule trim_not_Nil [of "CHR ''|''"]) (simp_all add: bar_not_space L0_def)
  have absorbed: "takeWhile (\<lambda>l. \<not> hasTimestamp l) (drop (0 + 1) ?lines) = [cont, []]"
    using cont hasTimestamp_Nil by simp
  let ?msg = "removeDebugPrefix (replaceEscapedNewlines (trim msgText)) @ [newline] @ cont @ [newline] @ []"
  let ?dl = "\<lparr>lineNumber = (case matchBracketNumber f2 of Some d \<Rightarrow> parseDec d | None \<Rightarrow> 0),
              message = ?msg, timestamp = ts\<rparr>"
  have tb0: "tryBlock ?lines 0 initialState = dispatch ?lines 0 L0 parts initialState"
    by (simp add: tryBlock_def isPartOfPreviousDebugLine_def initialState_def split len)
  obtain st' where tb: "tryBlock ?lines 0 initialState = Returned 2 st'"
    and dl: "debugLines (analysis st') = [?dl]"
    unfolding tb0 dispatch_user_debug [of parts, unfolded len, OF tag]
      processUserDebug_Inr [OF len(1)] absorbed join len
    by (simp add: initialState_def initializeAnalysis_def Let_def)
  have "analyzeLoop ?lines 0 initialState = analyzeLoop ?lines 3 st'"
    using tb t0 by (subst analyzeLoop.simps) simp
  also have "\<dots> = Some st'"
    by (subst analyzeLoop.simps) simp
  finally show ?thesis
    using dl lines by (simp add: analyzeApexLog_def L0_def)
qed

theorem analyzeApexLog_debug_continuation_witness:
  "isUserDebugTag ''USER_DEBUG'' \<and> trim ''more'' \<noteq> [] \<and> \<not> hasTimestamp ''more''
   \<and> map_option debugLines
        (analyzeApexLog (''12:00:00.1 (1)'' @ ''|'' @ ''USER_DEBUG'' @ ''|'' @ ''[5]'' @ ''|''
           @ (''  DEBUG|hello'' @ [backslash] @ ''nworld '') @ [newline] @ ''more'' @ [newline]))
     = Some [\<lparr>lineNumber = 5,
              message = ''hello'' @ [newline] @ ''world'' @ [newline] @ ''more'' @ [newline],
              timestamp = ''12:00:00.1 (1)''\<rparr>]"
proof -
  have n: "newline \<notin> set ''12:00:00.1 (1)''" "newline \<notin> set ''USER_DEBUG''"
    "newline \<notin> set ''[5]''" "newline \<notin> set (''  DEBUG|hello'' @ [backslash] @ ''nworld '')"
    "newline \<notin> set ''more''"
    by (simp_all add: newline_def backslash_def)
  have b: "CHR ''|'' \<notin> set ''12:00:00.1 (1)''" "CHR ''|'' \<notin> set ''USER_DEBUG''"
    "CHR ''|'' \<notin> set ''[5]''"
    by simp_all
  have t: "isUserDebugTag ''USER_DEBUG''" by code_simp
  have c: "trim ''more'' \<noteq> []" "\<not> hasTimestamp ''more''" by code_simp+
  have v: "(case matchBracketNumber ''[5]'' of Some d \<Rightarrow> parseDec d | None \<Rightarrow> 0) = 5"
    by code_simp
  have m: "removeDebugPrefix (replaceEscapedNewlines (trim (''  DEBUG|hello'' @ [backslash] @ ''nworld '')))
      = ''hello'' @ [newline] @ ''world''"
    by code_simp
  from analyzeApexLog_debug_continuation [OF n b t c]
  show ?thesis using t c v m by simp
qed

subsection \<open>Lines the loop passes over\<close>

lemma dispatch_unrecognized:
  assumes "list_all (\<lambda>t. \<not> jsIncludes (parts ! 1) t) recognizedTags"
  shows "dispatch lines i line parts st = Returned i st"
  using assms by (simp add: recognizedTags_def dispatch_def Let_def)

lemma tryBlock_skipped:
  assumes "isSkippedLine (lines ! k)"
  shows "tryBlock lines k st = Returned k st"
  using assms
  by (auto simp: isSkippedLine_def tryBlock_def isPartOfPreviousDebugLine_def Let_def
      dispatch_unrecognized)

lemma analyzeLoop_skipped:
  assumes "isSkippedLine (lines ! k)" "k < length lines"
  shows "analyzeLoop lines k st = analyzeLoop lines (k + 1) st"
  using assms by (subst analyzeLoop.simps) (simp add: tryBlock_skipped)

lemma analyzeLoop_skipped_range:
  assumes "\<forall>k. a \<le> k \<and> k < j \<longrightarrow> isSkippedLine (lines ! k)" "a \<le> j" "j \<le> length lines"
  shows "analyzeLoop lines a st = analyzeLoop lines j st"
  using assms
proof (induction "j - a" arbitrary: a)
  case 0
  then show ?case by simp
next
  case (Suc n)
  then have "a < j" by simp
  with Suc.prems have s: "isSkippedLine (lines ! a)" and l: "a < length lines" by auto
  have "analyzeLoop lines (a + 1) st = analyzeLoop lines j st"
    using Suc.hyps Suc.prems \<open>a < j\<close> by (intro Suc.hyps(1)) auto
  with analyzeLoop_skipped [OF s l] show ?case by simp
qed

lemma analyzeLoop_continued:
  assumes "0 \<le> lastDebugLineIndex st" "j < length lines" "trim (lines ! j) \<noteq> []"
    "\<not> hasTimestamp (lines ! j)"
  shows "analyzeLoop lines j st
     = analyzeLoop lines (j + 1) (st\<lparr>analysis := processContinuedDebugLine (analysis st) (lines ! j)\<rparr>)"
  using assms
  by (subst analyzeLoop.simps) (simp add: tryBlock_def isPartOfPreviousDebugLine_def)

lemma analyzeLoop_user_debug:
  assumes "i < length lines" "trim (lines ! i) \<noteq> []"
    "\<not> isPartOfPreviousDebugLine (lastDebugLineIndex st) (lines ! i)"
    "2 < length (jsSplit (CHR ''|'') (lines ! i))"
    "isUserDebugTag (jsSplit (CHR ''|'') (lines ! i) ! 1)"
  shows "\<exists>st1. analyzeLoop lines i st
       = analyzeLoop lines (i + length (takeWhile (\<lambda>l. \<not> hasTimestamp l) (drop (i + 1) lines)) + 1) st1
     \<and> lastDebugLineIndex st1 = int i
     \<and> map message (debugLines (analysis st1)) = map message (debugLines (analysis st))
        @ [removeDebugPrefix (replaceEscapedNewlines
             (trim (jsJoin ''|'' (drop 3 (jsSplit (CHR ''|'') (lines ! i))))))
           @ concat (map ((#) newline) (takeWhile (\<lambda>l. \<not> hasTimestamp l) (drop (i + 1) lines)))]"
proof -
  define parts where "parts = jsSplit (CHR ''|'') (lines ! i)"
  define absorbed where "absorbed = takeWhile (\<lambda>l. \<not> hasTimestamp l) (drop (i + 1) lines)"
  have len: "2 < length parts" "\<not> length parts < 2" and tag: "isUserDebugTag (parts ! 1)"
    using assms by (simp_all add: parts_def)
  have tb0: "tryBlock lines i st = dispatch lines i (lines ! i) parts st"
    using assms(3) len by (simp add: tryBlock_def parts_def [symmetric])
  obtain st1 where tb: "tryBlock lines i st = Returned (i + length absorbed) st1"
    and ld: "lastDebugLineIndex st1 = int i"
    and dl: "map message (debugLines (analysis st1)) = map message (debugLines (analysis st))
        @ [removeDebugPrefix (replaceEscapedNewlines (trim (jsJoin ''|'' (drop 3 parts))))
           @ concat (map ((#) newline) absorbed)]"
    unfolding tb0 dispatch_user_debug [OF tag] processUserDebug_Inr [OF len(1)]
      absorbed_def [symmetric]
    by (simp add: Let_def)
  have "analyzeLoop lines i st = analyzeLoop lines (i + length absorbed + 1) st1"
    using tb assms(1,2) by (subst analyzeLoop.simps) simp
  with ld dl show ?thesis unfolding parts_def absorbed_def by blast
qed

lemma processContinuedDebugLine_message:
  assumes "debugLines a \<noteq> []"
  shows "map message (debugLines (processContinuedDebugLine a line))
        = map message (butlast (debugLines a))
          @ [message (last (debugLines a)) @ newline # removeDebugPrefix line]"
  using assms by (simp add: processContinuedDebugLine_def Let_def)

text \<open>
  Claim C9. A line that begins with the time-stamp pattern and has fewer than two fields,
  or a tag with none of the recognized substrings, leaves every variable of the loop as
  it was, the index of the open debug capture included. So when a user-debug event (a line
  of three fields or more, handled as an event) is followed, after the lines its handler
  absorbs, by such lines only and then by a line \<open>j\<close> that is not blank and does not
  begin with the time-stamp pattern, the loop reaches the line after \<open>j\<close> with the
  capture still open and with line \<open>j\<close>, less a leading \<open>DEBUG|\<close>, appended behind a
  newline to the message of that debug statement.
\<close>

theorem analyzeLoop_skipped_lines_keep_debug_open:
  assumes dbg: "i < length lines" "trim (lines ! i) \<noteq> []"
      "\<not> isPartOfPreviousDebugLine (lastDebugLineIndex st) (lines ! i)"
      "2 < length (jsSplit (CHR ''|'') (lines ! i))"
      "isUserDebugTag (jsSplit (CHR ''|'') (lines ! i) ! 1)"
    and skipped: "\<forall>k. i + length (takeWhile (\<lambda>l. \<not> hasTimestamp l) (drop (i + 1) lines)) < k \<and> k < j
                    \<longrightarrow> isSkippedLine (lines ! k)"
    and later: "i + length (takeWhile (\<lambda>l. \<not> hasTimestamp l) (drop (i + 1) lines)) < j"
      "j < length lines" "trim (lines ! j) \<noteq> []" "\<not> hasTimestamp (lines ! j)"
  shows "(\<forall>k st'. k < length lines \<and> isSkippedLine (lines ! k)
            \<longrightarrow> tryBlock lines k st' = Returned k st'
              \<and> analyzeLoop lines k st' = analyzeLoop lines (k + 1) st')
    \<and> (\<exists>st2. analyzeLoop lines i st = analyzeLoop lines (j + 1) st2
          \<and> lastDebugLineIndex st2 = int i
          \<and> map message (debugLines (analysis st2)) = map message (debugLines (analysis st))
             @ [removeDebugPrefix (replaceEscapedNewlines
                  (trim (jsJoin ''|'' (drop 3 (jsSplit (CHR ''|'') (lines ! i))))))
                @ concat (map ((#) newline)
                    (takeWhile (\<lambda>l. \<not> hasTimestamp l) (drop (i + 1) lines)))
                @ newline # removeDebugPrefix (lines ! j)])"
proof
  show "\<forall>k st'. k < length lines \<and> isSkippedLine (lines ! k)
            \<longrightarrow> tryBlock lines k st' = Returned k st'
              \<and> analyzeLoop lines k st' = analyzeLoop lines (k + 1) st'"
    by (simp add: tryBlock_skipped analyzeLoop_skipped)
next
  let ?n = "i + length (takeWhile (\<lambda>l. \<not> hasTimestamp l) (drop (i + 1) lines))"
  from analyzeLoop_user_debug [OF dbg] obtain st1 where
    s1: "analyzeLoop lines i st = analyzeLoop lines (?n + 1) st1"
    and ld: "lastDebugLineIndex st1 = int i"
    and dl: "map message (debugLines (analysis st1)) = map message (debugLines (analysis st))
        @ [removeDebugPrefix (replaceEscapedNewlines
             (trim (jsJoin ''|'' (drop 3 (jsSplit (CHR ''|'') (lines ! i))))))
           @ concat (map ((#) newline) (takeWhile (\<lambda>l. \<not> hasTimestamp l) (drop (i + 1) lines)))]"
    by blast
  have s2: "analyzeLoop lines (?n + 1) st1 = analyzeLoop lines j st1"
    using skipped later(1,2) by (intro analyzeLoop_skipped_range) auto
  have "0 \<le> lastDebugLineIndex st1" using ld by simp
  from analyzeLoop_continued [OF this later(2,3,4)]
  have s3: "analyzeLoop lines j st1
     = analyzeLoop lines (j + 1) (st1\<lparr>analysis := processContinuedDebugLine (analysis st1) (lines ! j)\<rparr>)" .
  have ne: "debugLines (analysis st1) \<noteq> []"
    using dl by (cases "debugLines (analysis st1)") auto
  have bl: "map message (butlast (debugLines (analysis st1))) = map message (debugLines (analysis st))"
    and la: "message (last (debugLines (analysis st1)))
       = removeDebugPrefix (replaceEscapedNewlines
             (trim (jsJoin ''|'' (drop 3 (jsSplit (CHR ''|'') (lines ! i))))))
           @ concat (map ((#) newline) (takeWhile (\<lambda>l. \<not> hasTimestamp l) (drop (i + 1) lines)))"
  proof -
    show "map message (butlast (debugLines (analysis st1))) = map message (debugLines (analysis st))"
      unfolding map_butlast dl by simp
    show "message (last (debugLines (analysis st1)))
       = removeDebugPrefix (replaceEscapedNewlines
             (trim (jsJoin ''|'' (drop 3 (jsSplit (CHR ''|'') (lines ! i))))))
           @ concat (map ((#) newline) (takeWhile (\<lambda>l. \<not> hasTimestamp l) (drop (i + 1) lines)))"
      unfolding last_map [OF ne, symmetric] dl by simp
  qed
  let ?st2 = "st1\<lparr>analysis := processContinuedDebugLine (analysis st1) (lines ! j)\<rparr>"
  have "analyzeLoop lines i st = analyzeLoop lines (j + 1) ?st2"
    using s1 s2 s3 by simp
  moreover have "lastDebugLineIndex ?st2 = int i" using ld by simp
  moreover have "map message (debugLines (analysis ?st2)) = map message (debugLines (analysis st))
             @ [removeDebugPrefix (replaceEscapedNewlines
                  (trim (jsJoin ''|'' (drop 3 (jsSplit (CHR ''|'') (lines ! i))))))
                @ concat (map ((#) newline)
                    (takeWhile (\<lambda>l. \<not> hasTimestamp l) (drop (i + 1) lines)))
                @ newline # removeDebugPrefix (lines ! j)]"
    using processContinuedDebugLine_message [OF ne, of "lines ! j"] bl la by simp
  ultimately show "\<exists>st2. analyzeLoop lines i st = analyzeLoop lines (j + 1) st2
          \<and> lastDebugLineIndex st2 = int i
          \<and> map message (debugLines (analysis st2)) = map message (debugLines (analysis st))
             @ [removeDebugPrefix (replaceEscapedNewlines
                  (trim (jsJoin ''|'' (drop 3 (jsSplit (CHR ''|'') (lines ! i))))))
                @ concat (map ((#) newline)
                    (takeWhile (\<lambda>l. \<not> hasTimestamp l) (drop (i + 1) lines)))
                @ newline # removeDebugPrefix (lines ! j)]"
    by blast
qed

theorem analyzeLoop_skipped_lines_keep_debug_open_witness:
  "isSkippedLine ([''1:2:3|USER_DEBUG|[1]|DEBUG|a'', ''1:2:4 junk'', ''1:2:5|FOO|x'', ''DEBUG|later''] ! 1)
   \<and> isSkippedLine ([''1:2:3|USER_DEBUG|[1]|DEBUG|a'', ''1:2:4 junk'', ''1:2:5|FOO|x'', ''DEBUG|later''] ! 2)
   \<and> \<not> hasTimestamp ([''1:2:3|USER_DEBUG|[1]|DEBUG|a'', ''1:2:4 junk'', ''1:2:5|FOO|x'', ''DEBUG|later''] ! 3)
   \<and> map_option (\<lambda>s. map message (debugLines (analysis s)))
        (analyzeLoop [''1:2:3|USER_DEBUG|[1]|DEBUG|a'', ''1:2:4 junk'', ''1:2:5|FOO|x'', ''DEBUG|later'']
           0 initialState)
     = Some [''a'' @ [newline] @ ''later'']"
proof -
  let ?L = "[''1:2:3|USER_DEBUG|[1]|DEBUG|a'', ''1:2:4 junk'', ''1:2:5|FOO|x'', ''DEBUG|later'']"
  let ?tw = "takeWhile (\<lambda>l. \<not> hasTimestamp l) (drop (0 + 1) ?L)"
  have d: "0 < length ?L" "trim (?L ! 0) \<noteq> []"
    "\<not> isPartOfPreviousDebugLine (lastDebugLineIndex initialState) (?L ! 0)"
    "2 < length (jsSplit (CHR ''|'') (?L ! 0))"
    "isUserDebugTag (jsSplit (CHR ''|'') (?L ! 0) ! 1)"
    by code_simp+
  have tw: "?tw = []" by code_simp
  have s1: "isSkippedLine (?L ! 1)" and s2: "isSkippedLine (?L ! 2)" by code_simp+
  have sk: "\<forall>k. 0 + length ?tw < k \<and> k < 3 \<longrightarrow> isSkippedLine (?L ! k)"
  proof (intro allI impI)
    fix k assume "0 + length ?tw < k \<and> k < 3"
    then have "k = 1 \<or> k = 2" unfolding tw by auto
    then show "isSkippedLine (?L ! k)" using s1 s2 by auto
  qed
  have l: "0 + length ?tw < 3" "3 < length ?L" "trim (?L ! 3) \<noteq> []" "\<not> hasTimestamp (?L ! 3)"
    by code_simp+
  have v: "map message (debugLines (analysis initialState))
             @ [removeDebugPrefix (replaceEscapedNewlines
                  (trim (jsJoin ''|'' (drop 3 (jsSplit (CHR ''|'') (?L ! 0))))))
                @ concat (map ((#) newline) ?tw)
                @ newline # removeDebugPrefix (?L ! 3)]
      = [''a'' @ [newline] @ ''later'']"
    by code_simp
  from analyzeLoop_skipped_lines_keep_debug_open [OF d sk l] v
  obtain st2 where r: "analyzeLoop ?L 0 initialState = analyzeLoop ?L (3 + 1) st2"
    and m: "map message (debugLines (analysis st2)) = [''a'' @ [newline] @ ''later'']"
    by auto
  have "analyzeLoop ?L (3 + 1) st2 = Some st2"
    by (subst analyzeLoop.simps) simp
  with r m s1 s2 l(4) show ?thesis by simp
qed

subsection \<open>Limits\<close>

lemma limitUsageStep_sample:
  "limitUsageStep m part =
     (case limitSample part of None \<Rightarrow> m | Some (n, u, t) \<Rightarrow> AList.update n (u, t) m)"
  by (auto simp: limitUsageStep_def limitSample_def Let_def split: option.splits)

lemma cumulativeLimitsStep_sample:
  "cumulativeLimitsStep rel (a, m) part =
     (case limitSample part of
        None \<Rightarrow> (a, m)
      | Some (n, u, t) \<Rightarrow>
          ((if ratioAboveHalf u t
            then pushEvent (highLimitUsageEvent n u t rel)
                   (a\<lparr>governorLimits := governorLimits a @ [\<lparr>govName = n, usage = u, govTotal = t\<rparr>]\<rparr>)
            else a\<lparr>governorLimits := governorLimits a @ [\<lparr>govName = n, usage = u, govTotal = t\<rparr>]\<rparr>),
           AList.update n (u, t) m))"
  by (auto simp: cumulativeLimitsStep_def limitSample_def Let_def ratioAboveHalf_def
      split: option.splits)

lemma lastWriteWins_snoc:
  "lastWriteWins m (S @ [(n, u, t)]) = AList.update n (u, t) (lastWriteWins m S)"
  by (simp add: lastWriteWins_def)

lemma lastWriteWins_distinct:
  "distinct (map fst m) \<Longrightarrow> distinct (map fst (lastWriteWins m S))"
proof (induction S rule: rev_induct)
  case Nil
  then show ?case by (simp add: lastWriteWins_def)
next
  case (snoc x S)
  then show ?case
    by (cases x) (simp add: lastWriteWins_snoc distinct_update)
qed

lemma lastWriteWins_lookup:
  "map_of (lastWriteWins m S) n =
     (if filter (\<lambda>s. fst s = n) S = [] then map_of m n
      else Some (snd (last (filter (\<lambda>s. fst s = n) S))))"
proof (induction S rule: rev_induct)
  case Nil
  then show ?case by (simp add: lastWriteWins_def)
next
  case (snoc x S)
  obtain k u t where x: "x = (k, u, t)" by (cases x)
  show ?case
    unfolding x lastWriteWins_snoc update_conv' using snoc by simp
qed

lemma processLimitUsage_samples:
  "processLimitUsage a m parts = lastWriteWins m (List.map_filter limitSample (drop 2 parts))"
proof -
  have "foldl limitUsageStep m ps = lastWriteWins m (List.map_filter limitSample ps)" for ps
  proof (induction ps rule: rev_induct)
    case Nil
    then show ?case by (simp add: lastWriteWins_def List.map_filter_simps)
  next
    case (snoc p ps)
    then show ?case
      by (cases "limitSample p")
         (auto simp: limitUsageStep_sample map_filter_def lastWriteWins_def)
  qed
  then show ?thesis by (simp add: processLimitUsage_def)
qed

lemma processCumulativeLimits_samples:
  "processCumulativeLimits a m parts rel =
     (a\<lparr>governorLimits := governorLimits a
           @ map (\<lambda>(n, u, t). \<lparr>govName = n, usage = u, govTotal = t\<rparr>)
               (List.map_filter limitSample (drop 3 parts)),
        timeline := timeline a
           @ map (\<lambda>(n, u, t). highLimitUsageEvent n u t rel)
               (filter (\<lambda>(n, u, t). ratioAboveHalf u t)
                  (List.map_filter limitSample (drop 3 parts)))\<rparr>,
      lastWriteWins m (List.map_filter limitSample (drop 3 parts)))"
proof -
  have "foldl (cumulativeLimitsStep rel) (a, m) ps =
     (a\<lparr>governorLimits := governorLimits a
           @ map (\<lambda>(n, u, t). \<lparr>govName = n, usage = u, govTotal = t\<rparr>)
               (List.map_filter limitSample ps),
        timeline := timeline a
           @ map (\<lambda>(n, u, t). highLimitUsageEvent n u t rel)
               (filter (\<lambda>(n, u, t). ratioAboveHalf u t) (List.map_filter limitSample ps))\<rparr>,
      lastWriteWins m (List.map_filter limitSample ps))" for ps
  proof (induction ps rule: rev_induct)
    case Nil
    then show ?case by (simp add: lastWriteWins_def List.map_filter_simps)
  next
    case (snoc p ps)
    then show ?case
      by (cases "limitSample p")
         (auto simp: cumulativeLimitsStep_sample map_filter_def lastWriteWins_def pushEvent_def)
  qed
  then show ?thesis by (simp add: processCumulativeLimits_def)
qed

lemma analyzeLoop_invariant:
  assumes step: "\<And>i st i' st'. I st \<Longrightarrow> i < length lines \<Longrightarrow> tryBlock lines i st = Returned i' st' \<Longrightarrow> I st'"
    and raise: "\<And>i st e st'. I st \<Longrightarrow> i < length lines \<Longrightarrow> tryBlock lines i st = Raised e st' \<Longrightarrow> I st'"
    and "I st" "analyzeLoop lines i st = Some r"
  shows "I r"
  using assms(3,4)
proof (induction "length lines - i" arbitrary: i st rule: less_induct)
  case less
  show ?case
  proof (cases "i < length lines")
    case False
    then show ?thesis using less.prems by (subst (asm) analyzeLoop.simps) simp
  next
    case True
    show ?thesis
    proof (cases "trim (lines ! i) = []")
      case t: True
      from True have m: "length lines - (i + 1) < length lines - i" by simp
      have "analyzeLoop lines (i + 1) st = Some r"
        using less.prems(2) True t by (subst (asm) analyzeLoop.simps) simp
      from less.hyps [OF m less.prems(1) this] show ?thesis .
    next
      case False
      show ?thesis
      proof (cases "tryBlock lines i st")
        case (Returned i' st')
        then have "i \<le> i'" by (rule tryBlock_index)
        with True have m: "length lines - (i' + 1) < length lines - i" by simp
        have "analyzeLoop lines (i' + 1) st' = Some r"
          using less.prems(2) True False Returned by (subst (asm) analyzeLoop.simps) simp
        from less.hyps [OF m step [OF less.prems(1) True Returned] this] show ?thesis .
      next
        case (Raised e st')
        from True have m: "length lines - (i + 1) < length lines - i" by simp
        have "analyzeLoop lines (i + 1) st' = Some r"
          using less.prems(2) True False Raised by (subst (asm) analyzeLoop.simps) simp
        from less.hyps [OF m raise [OF less.prems(1) True Raised] this] show ?thesis .
      qed
    qed
  qed
qed

lemma frame_pushEvent [simp]:
  "limits (pushEvent e a) = limits a" "governorLimits (pushEvent e a) = governorLimits a"
  by (simp_all add: pushEvent_def)

lemma frame_processContinuedDebugLine [simp]:
  "limits (processContinuedDebugLine a l) = limits a"
  "governorLimits (processContinuedDebugLine a l) = governorLimits a"
  by (simp_all add: processContinuedDebugLine_def Let_def)

lemma frame_simple [simp]:
  "limits (processExecutionStarted a) = limits a"
  "governorLimits (processExecutionStarted a) = governorLimits a"
  "limits (processExecutionFinished a s e) = limits a"
  "governorLimits (processExecutionFinished a s e) = governorLimits a"
  "limits (processSoqlQuery a parts rel) = limits a"
  "governorLimits (processSoqlQuery a parts rel) = governorLimits a"
  "limits (processDmlOperation a parts rel) = limits a"
  "governorLimits (processDmlOperation a parts rel) = governorLimits a"
  "limits (processHeapAllocation a line) = limits a"
  "governorLimits (processHeapAllocation a line) = governorLimits a"
  "limits (processException a parts rel lines i) = limits a"
  "governorLimits (processException a parts rel lines i) = governorLimits a"
  "limits (processMethodEntry a parts rel) = limits a"
  "governorLimits (processMethodEntry a parts rel) = governorLimits a"
  "limits (processMethodExit a parts rel) = limits a"
  "governorLimits (processMethodExit a parts rel) = governorLimits a"
  "limits (processProfilingData a parts) = limits a"
  "governorLimits (processProfilingData a parts) = governorLimits a"
  "limits (processSystemMode a tag rel) = limits a"
  "governorLimits (processSystemMode a tag rel) = governorLimits a"
  "limits (processConstructor a tag parts rel) = limits a"
  "governorLimits (processConstructor a tag parts rel) = governorLimits a"
  "limits (processCustomMethod a tag parts rel) = limits a"
  "governorLimits (processCustomMethod a tag parts rel) = governorLimits a"
  "limits (processEnd label a parts rel) = limits a"
  "governorLimits (processEnd label a parts rel) = governorLimits a"
  by (simp_all add: processExecutionStarted_def processExecutionFinished_def processSoqlQuery_def
      processDmlOperation_def processHeapAllocation_def processException_def processMethodEntry_def
      processMethodExit_def processProfilingData_def processSystemMode_def processConstructor_def
      processCustomMethod_def processEnd_def Let_def split: option.splits)

lemma frame_processCodeCoverage [simp]:
  "limits (processCodeCoverage a parts) = limits a"
  "governorLimits (processCodeCoverage a parts) = governorLimits a"
  by (simp_all add: processCodeCoverage_def coveragePercentStep_def coverageRatioStep_def
      coverageUncoveredStep_def Let_def split: option.splits prod.splits)

lemma frame_processUserDebug:
  assumes "processUserDebug a lines i parts rel ts = Inr (i', a')"
  shows "limits a' = limits a" "governorLimits a' = governorLimits a"
  using assms by (auto simp: processUserDebug_def Let_def split: if_splits prod.splits)

lemma lastWriteWins_Nil [simp]: "lastWriteWins m [] = m"
  by (simp add: lastWriteWins_def)

lemma dispatch_frame:
  assumes "dispatch lines i line parts st = Returned i' st' \<or> dispatch lines i line parts st = Raised e st'"
  shows "limits (analysis st') = limits (analysis st)
    \<and> ((limitMap st' = limitMap st \<and> governorLimits (analysis st') = governorLimits (analysis st))
       \<or> (jsIncludes (parts ! 1) ''LIMIT_USAGE_FOR_NS''
           \<and> governorLimits (analysis st') = governorLimits (analysis st)
           \<and> limitMap st' = lastWriteWins (limitMap st) (List.map_filter limitSample (drop 2 parts)))
       \<or> (limitMap st' = lastWriteWins (limitMap st) (List.map_filter limitSample (drop 3 parts))
           \<and> governorLimits (analysis st') = governorLimits (analysis st)
                @ map (\<lambda>(n, u, t). \<lparr>govName = n, usage = u, govTotal = t\<rparr>)
                    (List.map_filter limitSample (drop 3 parts))))"
  using assms unfolding dispatch_def Let_def processSoqlEnd_def processDmlEnd_def closeDebug_def
  by (auto split: if_splits sum.splits prod.splits
      simp: processLimitUsage_samples processCumulativeLimits_samples
      dest: frame_processUserDebug)

lemma tryBlock_frame:
  assumes "tryBlock lines i st = Returned i' st' \<or> tryBlock lines i st = Raised e st'"
  shows "limits (analysis st') = limits (analysis st)
    \<and> ((limitMap st' = limitMap st \<and> governorLimits (analysis st') = governorLimits (analysis st))
       \<or> (jsIncludes (jsSplit (CHR ''|'') (lines ! i) ! 1) ''LIMIT_USAGE_FOR_NS''
           \<and> 1 < length (jsSplit (CHR ''|'') (lines ! i))
           \<and> governorLimits (analysis st') = governorLimits (analysis st)
           \<and> limitMap st' = lastWriteWins (limitMap st)
                (List.map_filter limitSample (drop 2 (jsSplit (CHR ''|'') (lines ! i)))))
       \<or> (limitMap st' = lastWriteWins (limitMap st)
                (List.map_filter limitSample (drop 3 (jsSplit (CHR ''|'') (lines ! i))))
           \<and> governorLimits (analysis st') = governorLimits (analysis st)
                @ map (\<lambda>(n, u, t). \<lparr>govName = n, usage = u, govTotal = t\<rparr>)
                    (List.map_filter limitSample (drop 3 (jsSplit (CHR ''|'') (lines ! i))))))"
proof (cases "isPartOfPreviousDebugLine (lastDebugLineIndex st) (lines ! i)")
  case True
  then show ?thesis using assms by (auto simp: tryBlock_def Let_def)
next
  case False
  show ?thesis
  proof (cases "length (jsSplit (CHR ''|'') (lines ! i)) < 2")
    case True
    then show ?thesis using assms False by (auto simp: tryBlock_def Let_def)
  next
    case l: False
    then have "dispatch lines i (lines ! i) (jsSplit (CHR ''|'') (lines ! i)) st = Returned i' st'
       \<or> dispatch lines i (lines ! i) (jsSplit (CHR ''|'') (lines ! i)) st = Raised e st'"
      using assms False by (simp add: tryBlock_def Let_def)
    from dispatch_frame [OF this] l show ?thesis by auto
  qed
qed

lemma tryBlock_keeps_distinct:
  assumes "tryBlock lines i st = Returned i' st' \<or> tryBlock lines i st = Raised e st'"
    and "distinct (map fst (limitMap st)) \<and> limits (analysis st) = []"
  shows "distinct (map fst (limitMap st')) \<and> limits (analysis st') = []"
  using tryBlock_frame [OF assms(1)] assms(2) by (auto simp: lastWriteWins_distinct)

lemma analyzeLoop_keeps_distinct:
  assumes "analyzeLoop lines i st = Some r"
    and "distinct (map fst (limitMap st)) \<and> limits (analysis st) = []"
  shows "distinct (map fst (limitMap r)) \<and> limits (analysis r) = []"
proof (rule analyzeLoop_invariant
      [where I = "\<lambda>s. distinct (map fst (limitMap s)) \<and> limits (analysis s) = []", OF _ _ assms(2,1)])
  fix k s k' s'
  assume "distinct (map fst (limitMap s)) \<and> limits (analysis s) = []"
    and "tryBlock lines k s = Returned k' s'"
  then show "distinct (map fst (limitMap s')) \<and> limits (analysis s') = []"
    using tryBlock_keeps_distinct [of lines k s k' s'] by blast
next
  fix k s x s'
  assume "distinct (map fst (limitMap s)) \<and> limits (analysis s) = []"
    and "tryBlock lines k s = Raised x s'"
  then show "distinct (map fst (limitMap s')) \<and> limits (analysis s') = []"
    using tryBlock_keeps_distinct [of lines k s _ s' x] by blast
qed

lemma limName_toLimitUsage [simp]: "limName (toLimitUsage e) = fst e"
  by (cases e) (simp add: toLimitUsage_def)

lemma finalizeAnalysis_limits:
  "limits a = [] \<Longrightarrow>
     limits (finalizeAnalysis a m) = sort_key (\<lambda>l. - int (percentage l)) (map toLimitUsage m)"
  by (simp add: finalizeAnalysis_def Let_def)

lemma analyzeApexLog_distinct_names:
  assumes "analyzeApexLog logText = Some r"
  shows "distinct (map limName (limits r))"
proof -
  from assms obtain st where l: "analyzeLoop (jsSplit newline logText) 0 initialState = Some st"
    and r: "r = finalizeAnalysis (analysis st) (limitMap st)"
    by (auto simp: analyzeApexLog_def)
  have "distinct (map fst (limitMap initialState)) \<and> limits (analysis initialState) = []"
    by (simp add: initialState_def initializeAnalysis_def)
  from analyzeLoop_keeps_distinct [OF l this]
  have d: "distinct (map fst (limitMap st))" and e: "limits (analysis st) = []" by simp_all
  have "map limName (map toLimitUsage (limitMap st)) = map fst (limitMap st)"
    by (simp add: comp_def)
  with d have "distinct (map limName (map toLimitUsage (limitMap st)))"
    by (simp only:)
  then have "distinct (map toLimitUsage (limitMap st))
      \<and> inj_on limName (set (map toLimitUsage (limitMap st)))"
    by (simp only: distinct_map)
  then show ?thesis
    unfolding r finalizeAnalysis_limits [OF e] by (simp only: distinct_map distinct_sort set_sort)
qed

lemma jsIncludes_iff: "jsIncludes s t \<longleftrightarrow> (\<exists>a b. s = a @ t @ b)"
proof (induction s)
  case Nil
  then show ?case by auto
next
  case (Cons c cs)
  show ?case
  proof
    assume "jsIncludes (c # cs) t"
    then consider "prefix t (c # cs)" | "jsIncludes cs t" by auto
    then show "\<exists>a b. c # cs = a @ t @ b"
    proof cases
      case 1
      then obtain b where "c # cs = t @ b" by (auto simp: prefix_def)
      then have "c # cs = [] @ t @ b" by simp
      then show ?thesis by blast
    next
      case 2
      with Cons obtain a b where "cs = a @ t @ b" by blast
      then have "c # cs = (c # a) @ t @ b" by simp
      then show ?thesis by blast
    qed
  next
    assume "\<exists>a b. c # cs = a @ t @ b"
    then obtain a b where e: "c # cs = a @ t @ b" by blast
    show "jsIncludes (c # cs) t"
    proof (cases a)
      case Nil
      with e have "prefix t (c # cs)" by (auto simp: prefix_def)
      then show ?thesis by simp
    next
      case (Cons x a')
      with e have "cs = a' @ t @ b" by simp
      with Cons.IH have "jsIncludes cs t" by blast
      then show ?thesis by simp
    qed
  qed
qed

lemma jsSplit_hd_prefix: "jsSplit sep s = y # ys \<Longrightarrow> prefix y s"
proof (induction s arbitrary: y ys)
  case Nil
  then show ?case by simp
next
  case (Cons c cs)
  then show ?case
    by (cases "jsSplit sep cs") (auto split: if_splits)
qed

lemma jsSplit_elem_infix:
  "x \<in> set (jsSplit sep s) \<Longrightarrow> \<exists>a b. s = a @ x @ b"
proof (induction s arbitrary: x)
  case Nil
  then show ?case by simp
next
  case (Cons c cs)
  show ?case
  proof (cases "c = sep")
    case True
    with Cons.prems have "x = [] \<or> x \<in> set (jsSplit sep cs)" by auto
    then show ?thesis
    proof
      assume "x = []"
      then have "c # cs = [] @ x @ (c # cs)" by simp
      then show ?thesis by blast
    next
      assume "x \<in> set (jsSplit sep cs)"
      from Cons.IH [OF this] obtain a b where "cs = a @ x @ b" by blast
      then have "c # cs = (c # a) @ x @ b" by simp
      then show ?thesis by blast
    qed
  next
    case False
    obtain y ys where y: "jsSplit sep cs = y # ys"
      by (cases "jsSplit sep cs") (use jsSplit_not_Nil in auto)
    with False Cons.prems have "x = c # y \<or> x \<in> set ys" by auto
    then show ?thesis
    proof
      assume x: "x = c # y"
      from jsSplit_hd_prefix [OF y] obtain b where "cs = y @ b" by (auto simp: prefix_def)
      with x have "c # cs = [] @ x @ b" by simp
      then show ?thesis by blast
    next
      assume "x \<in> set ys"
      then have "x \<in> set (jsSplit sep cs)" using y by simp
      from Cons.IH [OF this] obtain a b where "cs = a @ x @ b" by blast
      then have "c # cs = (c # a) @ x @ b" by simp
      then show ?thesis by blast
    qed
  qed
qed

lemma jsIncludes_field:
  assumes "k < length (jsSplit sep s)" "jsIncludes (jsSplit sep s ! k) t"
  shows "jsIncludes s t"
proof -
  from assms(1) have "jsSplit sep s ! k \<in> set (jsSplit sep s)" by simp
  from jsSplit_elem_infix [OF this] obtain a b where s: "s = a @ (jsSplit sep s ! k) @ b" by blast
  from assms(2) obtain c d where "jsSplit sep s ! k = c @ t @ d" unfolding jsIncludes_iff by blast
  with s have "s = (a @ c) @ t @ (d @ b)" by simp
  then show ?thesis unfolding jsIncludes_iff by blast
qed

lemma rawSample_map:
  "map (rawSample \<circ> (\<lambda>(n, u, t). \<lparr>govName = n, usage = u, govTotal = t\<rparr>)) S = S"
  by (induction S) (auto simp: rawSample_def)

lemma lastWriteWins_append:
  "lastWriteWins m (S @ T) = lastWriteWins (lastWriteWins m S) T"
  by (simp add: lastWriteWins_def)

lemma tryBlock_keeps_raw:
  assumes "tryBlock lines i st = Returned i' st' \<or> tryBlock lines i st = Raised e st'"
    and "\<not> jsIncludes (lines ! i) ''LIMIT_USAGE_FOR_NS''"
    and "limitMap st = lastWriteWins [] (map rawSample (governorLimits (analysis st)))"
  shows "limitMap st' = lastWriteWins [] (map rawSample (governorLimits (analysis st')))"
proof -
  have "\<not> (jsIncludes (jsSplit (CHR ''|'') (lines ! i) ! 1) ''LIMIT_USAGE_FOR_NS''
           \<and> 1 < length (jsSplit (CHR ''|'') (lines ! i)))"
    using assms(2) jsIncludes_field [of 1 "CHR ''|''" "lines ! i"] by blast
  with tryBlock_frame [OF assms(1)] assms(3) show ?thesis
    by (auto simp: rawSample_map lastWriteWins_append)
qed

lemma analyzeLoop_keeps_raw:
  assumes "analyzeLoop lines i st = Some r"
    and "\<forall>l \<in> set lines. \<not> jsIncludes l ''LIMIT_USAGE_FOR_NS''"
    and "limitMap st = lastWriteWins [] (map rawSample (governorLimits (analysis st)))"
  shows "limitMap r = lastWriteWins [] (map rawSample (governorLimits (analysis r)))"
proof (rule analyzeLoop_invariant
      [where I = "\<lambda>s. limitMap s = lastWriteWins [] (map rawSample (governorLimits (analysis s)))",
       OF _ _ assms(3,1)])
  fix k s k' s'
  assume "limitMap s = lastWriteWins [] (map rawSample (governorLimits (analysis s)))"
    and "k < length lines" and "tryBlock lines k s = Returned k' s'"
  then show "limitMap s' = lastWriteWins [] (map rawSample (governorLimits (analysis s')))"
    using tryBlock_keeps_raw [of lines k s k' s'] assms(2) by auto
next
  fix k s x s'
  assume "limitMap s = lastWriteWins [] (map rawSample (governorLimits (analysis s)))"
    and "k < length lines" and "tryBlock lines k s = Raised x s'"
  then show "limitMap s' = lastWriteWins [] (map rawSample (governorLimits (analysis s')))"
    using tryBlock_keeps_raw [of lines k s _ s' x] assms(2) by auto
qed

lemma governorLimits_finalizeAnalysis [simp]:
  "governorLimits (finalizeAnalysis a m) = governorLimits a"
  by (simp add: finalizeAnalysis_def Let_def)

lemma filter_key_distinct:
  assumes "distinct (map fst m)" "map_of m n = Some v"
  shows "filter (\<lambda>e. fst e = n) m = [(n, v)]"
  using assms
proof (induction m)
  case Nil
  then show ?case by simp
next
  case (Cons p m)
  show ?case
  proof (cases "fst p = n")
    case True
    with Cons.prems have "p = (n, v)" by (cases p) auto
    moreover have "n \<notin> fst ` set m"
      using Cons.prems(1) True by simp
    then have "filter (\<lambda>e. fst e = n) m = []"
      by (auto simp: filter_empty_conv intro: rev_image_eqI)
    ultimately show ?thesis by simp
  next
    case False
    with Cons show ?thesis by (cases p) auto
  qed
qed

lemma analyzeApexLog_raw_last_write:
  assumes r: "analyzeApexLog logText = Some r"
    and ns: "\<not> jsIncludes logText ''LIMIT_USAGE_FOR_NS''"
    and g: "g \<in> set (governorLimits r)"
  shows "filter (\<lambda>l. limName l = govName g) (limits r)
     = [toLimitUsage (rawSample (last (filter (\<lambda>h. govName h = govName g) (governorLimits r))))]"
proof -
  let ?lines = "jsSplit newline logText"
  let ?n = "govName g"
  from r obtain st where l: "analyzeLoop ?lines 0 initialState = Some st"
    and rr: "r = finalizeAnalysis (analysis st) (limitMap st)"
    by (auto simp: analyzeApexLog_def)
  let ?G = "governorLimits (analysis st)"
  let ?m = "limitMap st"
  have G: "governorLimits r = ?G" by (simp add: rr)
  have nl: "\<forall>l \<in> set ?lines. \<not> jsIncludes l ''LIMIT_USAGE_FOR_NS''"
  proof
    fix x assume "x \<in> set ?lines"
    from jsSplit_elem_infix [OF this] obtain a b where e: "logText = a @ x @ b" by blast
    show "\<not> jsIncludes x ''LIMIT_USAGE_FOR_NS''"
    proof
      assume "jsIncludes x ''LIMIT_USAGE_FOR_NS''"
      then obtain c d where "x = c @ ''LIMIT_USAGE_FOR_NS'' @ d" unfolding jsIncludes_iff by blast
      with e have "logText = (a @ c) @ ''LIMIT_USAGE_FOR_NS'' @ (d @ b)" by simp
      then have "jsIncludes logText ''LIMIT_USAGE_FOR_NS''" unfolding jsIncludes_iff by blast
      with ns show False by simp
    qed
  qed
  have "limitMap initialState = lastWriteWins [] (map rawSample (governorLimits (analysis initialState)))"
    by (simp add: initialState_def initializeAnalysis_def)
  from analyzeLoop_keeps_raw [OF l nl this]
  have m: "?m = lastWriteWins [] (map rawSample ?G)" .
  have "distinct (map fst (limitMap initialState)) \<and> limits (analysis initialState) = []"
    by (simp add: initialState_def initializeAnalysis_def)
  from analyzeLoop_keeps_distinct [OF l this]
  have d: "distinct (map fst ?m)" and e: "limits (analysis st) = []" by simp_all
  let ?F = "filter (\<lambda>h. govName h = ?n) ?G"
  have fne: "?F \<noteq> []" using g G by (auto simp: filter_empty_conv)
  have fm: "filter (\<lambda>s. fst s = ?n) (map rawSample ?G) = map rawSample ?F"
    by (simp add: filter_map comp_def rawSample_def)
  have "last ?F \<in> set ?F" using fne by (rule last_in_set)
  then have ln: "govName (last ?F) = ?n" by simp
  have "map_of ?m ?n = Some (snd (rawSample (last ?F)))"
    unfolding m lastWriteWins_lookup fm using fne by (simp add: last_map)
  from filter_key_distinct [OF d this] ln
  have fk: "filter (\<lambda>e. fst e = ?n) ?m = [rawSample (last ?F)]"
    by (simp add: rawSample_def)
  have "filter (\<lambda>l. limName l = ?n) (limits r)
      = sort_key (\<lambda>l. - int (percentage l)) (map toLimitUsage (filter (\<lambda>e. fst e = ?n) ?m))"
    unfolding rr finalizeAnalysis_limits [OF e] filter_sort by (simp add: filter_map comp_def)
  then show ?thesis unfolding fk G by simp
qed

lemma limits_example:
  "map_option (\<lambda>a. (limits a, governorLimits a, timeline a))
     (analyzeApexLog (''1:2:3|CUMULATIVE_LIMIT_USAGE|x|Queries: 10 of 100''
        @ newline # ''1:2:4|CUMULATIVE_LIMIT_USAGE|x|Queries: 55 of 100''))
   = Some ([\<lparr>limName = ''Queries'', limUsed = 55, limTotal = 100, percentage = 55\<rparr>],
           [\<lparr>govName = ''Queries'', usage = 10, govTotal = 100\<rparr>,
            \<lparr>govName = ''Queries'', usage = 55, govTotal = 100\<rparr>],
           [\<lparr>event = ''High Limit Usage'', timeMs = RoundMs (ParseFloat ''1:2:4'') Zero,
             details = Some ''Queries: 55 of 100 (55%)''\<rparr>])"
proof -
  let ?l1 = "''1:2:3|CUMULATIVE_LIMIT_USAGE|x|Queries: 10 of 100''"
  let ?l2 = "''1:2:4|CUMULATIVE_LIMIT_USAGE|x|Queries: 55 of 100''"
  let ?p1 = "[''1:2:3'', ''CUMULATIVE_LIMIT_USAGE'', ''x'', ''Queries: 10 of 100'']"
  let ?p2 = "[''1:2:4'', ''CUMULATIVE_LIMIT_USAGE'', ''x'', ''Queries: 55 of 100'']"
  have lines: "jsSplit newline (?l1 @ newline # ?l2) = [?l1, ?l2]" by code_simp
  have sp: "jsSplit (CHR ''|'') ?l1 = ?p1" "jsSplit (CHR ''|'') ?l2 = ?p2" by code_simp+
  have nb: "trim ?l1 \<noteq> []" "trim ?l2 \<noteq> []" by code_simp+
  have ts: "hasTimestamp ?l1" "hasTimestamp ?l2" by code_simp+
  have tag: "\<not> jsIncludes ''CUMULATIVE_LIMIT_USAGE'' ''EXECUTION_STARTED''"
    "\<not> jsIncludes ''CUMULATIVE_LIMIT_USAGE'' ''EXECUTION_FINISHED''"
    "\<not> jsIncludes ''CUMULATIVE_LIMIT_USAGE'' ''SOQL_EXECUTE_BEGIN''"
    "\<not> jsIncludes ''CUMULATIVE_LIMIT_USAGE'' ''DML_BEGIN''"
    "\<not> jsIncludes ''CUMULATIVE_LIMIT_USAGE'' ''USER_DEBUG''"
    "\<not> jsIncludes ''CUMULATIVE_LIMIT_USAGE'' ''HEAP_ALLOCATE''"
    "\<not> jsIncludes ''CUMULATIVE_LIMIT_USAGE'' ''EXCEPTION_THROWN''"
    "\<not> jsIncludes ''CUMULATIVE_LIMIT_USAGE'' ''FATAL_ERROR''"
    "\<not> jsIncludes ''CUMULATIVE_LIMIT_USAGE'' ''SYSTEM_METHOD_ENTRY''"
    "\<not> jsIncludes ''CUMULATIVE_LIMIT_USAGE'' ''SYSTEM_METHOD_EXIT''"
    "\<not> jsIncludes ''CUMULATIVE_LIMIT_USAGE'' ''LIMIT_USAGE_FOR_NS''"
    "jsIncludes ''CUMULATIVE_LIMIT_USAGE'' ''CUMULATIVE_LIMIT_USAGE''"
    by code_simp+
  have disp: "dispatch lines i line [t, ''CUMULATIVE_LIMIT_USAGE'', x, f] st
      = (case processCumulativeLimits (analysis st) (limitMap st) [t, ''CUMULATIVE_LIMIT_USAGE'', x, f]
                (RoundMs (ParseFloat t) (startTime st)) of
           (a', m') \<Rightarrow> Returned i (closeDebug (st\<lparr>analysis := a', limitMap := m'\<rparr>)))"
    for lines i line t x f st
    unfolding dispatch_def Let_def using tag by (simp del: jsIncludes.simps)
  have sm: "limitSample ''Queries: 10 of 100'' = Some (''Queries'', 10, 100)"
    "limitSample ''Queries: 55 of 100'' = Some (''Queries'', 55, 100)"
    "List.map_filter limitSample [] = []"
    by code_simp+
  have ra: "\<not> ratioAboveHalf 10 100" "ratioAboveHalf 55 100" by (simp_all add: ratioAboveHalf_def)
  have pc: "roundPercent 55 100 = 55" by (simp add: roundPercent_eval)
  have sh: "showNat 55 = ''55''" "showNat 100 = ''100''" by code_simp+
  have ev: "highLimitUsageEvent ''Queries'' 55 100 rel
      = \<lparr>event = ''High Limit Usage'', timeMs = rel, details = Some ''Queries: 55 of 100 (55%)''\<rparr>" for rel
    by (simp add: highLimitUsageEvent_def jsPercent_def pc showNum_def sh)
  have tl: "toLimitUsage (''Queries'', 55, 100)
      = \<lparr>limName = ''Queries'', limUsed = 55, limTotal = 100, percentage = 55\<rparr>"
    by (simp add: toLimitUsage_def pc)
  define s1 where "s1 = closeDebug (initialState\<lparr>
      analysis := initializeAnalysis\<lparr>governorLimits := [\<lparr>govName = ''Queries'', usage = 10, govTotal = 100\<rparr>],
                                      timeline := []\<rparr>,
      limitMap := [(''Queries'', 10, 100)]\<rparr>)"
  define s2 where "s2 = closeDebug (s1\<lparr>
      analysis := (analysis s1)\<lparr>governorLimits := [\<lparr>govName = ''Queries'', usage = 10, govTotal = 100\<rparr>,
                                                   \<lparr>govName = ''Queries'', usage = 55, govTotal = 100\<rparr>],
          timeline := [\<lparr>event = ''High Limit Usage'', timeMs = RoundMs (ParseFloat ''1:2:4'') Zero,
                         details = Some ''Queries: 55 of 100 (55%)''\<rparr>]\<rparr>,
      limitMap := [(''Queries'', 55, 100)]\<rparr>)"
  have t1: "tryBlock [?l1, ?l2] 0 initialState = Returned 0 s1"
    using ts(1) unfolding tryBlock_def Let_def
    by (simp add: isPartOfPreviousDebugLine_def sp disp processCumulativeLimits_samples sm ra
          lastWriteWins_def s1_def initialState_def initializeAnalysis_def del: jsSplit.simps)
  have t2: "tryBlock [?l1, ?l2] 1 s1 = Returned 1 s2"
    using ts(2) unfolding tryBlock_def Let_def
    by (simp add: isPartOfPreviousDebugLine_def sp disp processCumulativeLimits_samples sm ra ev
          lastWriteWins_def s1_def s2_def closeDebug_def initialState_def initializeAnalysis_def
          del: jsSplit.simps)
  have "analyzeLoop [?l1, ?l2] 0 initialState = analyzeLoop [?l1, ?l2] 1 s1"
    using nb t1 by (subst analyzeLoop.simps) simp
  also have "\<dots> = analyzeLoop [?l1, ?l2] 2 s2"
    using nb t2 by (subst analyzeLoop.simps) (simp add: numeral_2_eq_2)
  also have "\<dots> = Some s2"
    by (subst analyzeLoop.simps) simp
  finally have run: "analyzeLoop [?l1, ?l2] 0 initialState = Some s2" .
  show ?thesis
    unfolding analyzeApexLog_def lines run
    by (simp add: finalizeAnalysis_def Let_def s2_def s1_def closeDebug_def initialState_def
          initializeAnalysis_def tl)
qed

text \<open>
  Claim C2. The names in the finalized limit list of any log are distinct: a name has at
  most one entry. In a log without per-namespace limit events, each name among the raw
  cumulative samples has exactly one entry, and it holds the used count and the total of
  the last raw sample of that name. Either producer writes its samples into the map one
  \<^verbatim>\<open>set\<close> after the other, so that the map holds for a name the values of the last
  sample of that name and not a maximum, a sum or a merge; and the cumulative producer
  appends one raw sample for each sample, and one \<open>High Limit Usage\<close> event for each
  sample whose own ratio is above one half, and for no other. For \<open>Queries\<close> sampled at
  10 of 100 and then at 55 of 100 the list is the one entry at 55 of 100 with 55 percent,
  and the one timeline event is that of the second sample.
\<close>

theorem limits_last_write_wins:
  "(analyzeApexLog logText = Some r \<longrightarrow> distinct (map limName (limits r)))
   \<and> (analyzeApexLog logText = Some r \<and> \<not> jsIncludes logText ''LIMIT_USAGE_FOR_NS''
        \<and> g \<in> set (governorLimits r)
        \<longrightarrow> filter (\<lambda>l. limName l = govName g) (limits r)
            = [toLimitUsage (rawSample (last (filter (\<lambda>h. govName h = govName g)
                                                  (governorLimits r))))])
   \<and> processLimitUsage a m parts = lastWriteWins m (List.map_filter limitSample (drop 2 parts))
   \<and> processCumulativeLimits a m parts rel =
       (a\<lparr>governorLimits := governorLimits a
             @ map (\<lambda>(n, u, t). \<lparr>govName = n, usage = u, govTotal = t\<rparr>)
                 (List.map_filter limitSample (drop 3 parts)),
          timeline := timeline a
             @ map (\<lambda>(n, u, t). highLimitUsageEvent n u t rel)
                 (filter (\<lambda>(n, u, t). ratioAboveHalf u t)
                    (List.map_filter limitSample (drop 3 parts)))\<rparr>,
        lastWriteWins m (List.map_filter limitSample (drop 3 parts)))
   \<and> map_of (lastWriteWins m S) k =
       (if filter (\<lambda>s. fst s = k) S = [] then map_of m k
        else Some (snd (last (filter (\<lambda>s. fst s = k) S))))
   \<and> map_option (\<lambda>a. (limits a, governorLimits a, timeline a))
       (analyzeApexLog (''1:2:3|CUMULATIVE_LIMIT_USAGE|x|Queries: 10 of 100''
          @ newline # ''1:2:4|CUMULATIVE_LIMIT_USAGE|x|Queries: 55 of 100''))
     = Some ([\<lparr>limName = ''Queries'', limUsed = 55, limTotal = 100, percentage = 55\<rparr>],
             [\<lparr>govName = ''Queries'', usage = 10, govTotal = 100\<rparr>,
              \<lparr>govName = ''Queries'', usage = 55, govTotal = 100\<rparr>],
             [\<lparr>event = ''High Limit Usage'', timeMs = RoundMs (ParseFloat ''1:2:4'') Zero,
               details = Some ''Queries: 55 of 100 (55%)''\<rparr>])"
  using analyzeApexLog_distinct_names [of logText r]
    analyzeApexLog_raw_last_write [of logText r g]
    processLimitUsage_samples [of a m parts]
    processCumulativeLimits_samples [of a m parts rel]
    lastWriteWins_lookup [of m S k]
    limits_example
  by (intro conjI impI) blast+

theorem limits_last_write_wins_witness:
  "\<not> jsIncludes (''1:2:3|CUMULATIVE_LIMIT_USAGE|x|Queries: 10 of 100''
          @ newline # ''1:2:4|CUMULATIVE_LIMIT_USAGE|x|Queries: 55 of 100'') ''LIMIT_USAGE_FOR_NS''
   \<and> map_option governorLimits
        (analyzeApexLog (''1:2:3|CUMULATIVE_LIMIT_USAGE|x|Queries: 10 of 100''
          @ newline # ''1:2:4|CUMULATIVE_LIMIT_USAGE|x|Queries: 55 of 100''))
     = Some [\<lparr>govName = ''Queries'', usage = 10, govTotal = 100\<rparr>,
             \<lparr>govName = ''Queries'', usage = 55, govTotal = 100\<rparr>]
   \<and> map_option (\<lambda>a. filter (\<lambda>l. limName l = ''Queries'') (limits a))
        (analyzeApexLog (''1:2:3|CUMULATIVE_LIMIT_USAGE|x|Queries: 10 of 100''
          @ newline # ''1:2:4|CUMULATIVE_LIMIT_USAGE|x|Queries: 55 of 100''))
     = Some [\<lparr>limName = ''Queries'', limUsed = 55, limTotal = 100, percentage = 55\<rparr>]"
proof -
  let ?log = "''1:2:3|CUMULATIVE_LIMIT_USAGE|x|Queries: 10 of 100''
          @ newline # ''1:2:4|CUMULATIVE_LIMIT_USAGE|x|Queries: 55 of 100''"
  let ?g1 = "\<lparr>govName = ''Queries'', usage = 10, govTotal = 100\<rparr>"
  let ?g2 = "\<lparr>govName = ''Queries'', usage = 55, govTotal = 100\<rparr>"
  have n: "\<not> jsIncludes ?log ''LIMIT_USAGE_FOR_NS''" by code_simp
  from limits_example obtain r where r: "analyzeApexLog ?log = Some r"
    and gl: "governorLimits r = [?g1, ?g2]"
    by (cases "analyzeApexLog ?log") auto
  have g: "?g2 \<in> set (governorLimits r)" by (simp add: gl)
  have pc: "roundPercent 55 100 = 55" by (simp add: roundPercent_eval)
  from limits_last_write_wins [of ?log r ?g2] r n g
  have "filter (\<lambda>l. limName l = govName ?g2) (limits r)
      = [toLimitUsage (rawSample (last (filter (\<lambda>h. govName h = govName ?g2) (governorLimits r))))]"
    by blast
  then have "filter (\<lambda>l. limName l = ''Queries'') (limits r)
      = [\<lparr>limName = ''Queries'', limUsed = 55, limTotal = 100, percentage = 55\<rparr>]"
    by (simp add: gl rawSample_def toLimitUsage_def pc)
  with n r gl show ?thesis by simp
qed

end
